theory Spec2Isabelle
  imports Main
begin

section \<open>JavaScript values\<close>

text \<open>
  The configuration objects and the JSON payloads of the program are JavaScript values.
  A field that is absent reads as \<open>JUndefined\<close>. The strict comparison
  \<open>v === true\<close> of the source is the equation \<open>v = JBool True\<close>.
\<close>

datatype js_value =
    JUndefined
  | JNull
  | JBool bool
  | JNum int
  | JStr string
  | JArr "js_value list"
  | JObj "(string \<times> js_value) list"

text \<open>
  \<open>s || d\<close> on an optional string: \<open>undefined\<close> and the empty string are falsy.
\<close>

definition str_or :: "string option \<Rightarrow> string \<Rightarrow> string" where
  "str_or s d = (case s of None \<Rightarrow> d | Some v \<Rightarrow> if v = [] then d else v)"

section \<open>Proxy resolution (config loader, \<open>resolveProxyConfig\<close>)\<close>

text \<open>
  A proxy block of the configuration: \<open>browser.proxy\<close> (global) or
  \<open>instances[].proxy\<close> (instance level). An absent block (\<open>undefined\<close>) is
  \<open>None\<close>.
\<close>

record proxy_block =
  enable :: js_value
  proxy_type :: string
  host :: string
  port :: int
  user :: "string option"
  passwd :: "string option"

definition resolveProxyConfig ::
  "proxy_block option \<Rightarrow> proxy_block option \<Rightarrow> proxy_block option" where
  "resolveProxyConfig globalProxy instanceProxy =
     (if (case instanceProxy of None \<Rightarrow> False | Some p \<Rightarrow> enable p = JBool False)
      then None
      else if (case instanceProxy of None \<Rightarrow> False | Some p \<Rightarrow> enable p = JBool True)
      then instanceProxy
      else if (case globalProxy of None \<Rightarrow> False | Some g \<Rightarrow> enable g = JBool True)
      then globalProxy
      else None)"

section \<open>Response writing (\<open>server/http/respond.js\<close>)\<close>

text \<open>
  The part of Node's \<open>ServerResponse\<close> the module touches: the \<open>writableEnded\<close>
  flag, the status line and headers set by \<open>writeHead\<close>, and the chunks written to
  the body, in order.
\<close>

record response =
  writableEnded :: bool
  head :: "(int \<times> (string \<times> string) list) option"
  body :: "string list"

definition res_writeHead :: "int \<Rightarrow> (string \<times> string) list \<Rightarrow> response \<Rightarrow> response" where
  "res_writeHead status headers res = res\<lparr>head := Some (status, headers)\<rparr>"

definition res_write :: "string \<Rightarrow> response \<Rightarrow> response" where
  "res_write chunk res = res\<lparr>body := body res @ [chunk]\<rparr>"

definition res_end_with :: "string \<Rightarrow> response \<Rightarrow> response" where
  "res_end_with chunk res = res\<lparr>body := body res @ [chunk], writableEnded := True\<rparr>"

definition res_end :: "response \<Rightarrow> response" where
  "res_end res = res\<lparr>writableEnded := True\<rparr>"

text \<open>
  \<open>JSON.stringify\<close> and the decimal printing of a number are library functions of the
  runtime; they are parameters here. \<open>now\<close> is the value of \<open>Date.now()\<close>.
\<close>

definition sendJson ::
  "(js_value \<Rightarrow> string) \<Rightarrow> response \<Rightarrow> int \<Rightarrow> js_value \<Rightarrow> response" where
  "sendJson stringify res status payload =
     (if writableEnded res then res
      else res_end_with (stringify payload)
             (res_writeHead status [(''Content-Type'', ''application/json'')] res))"

definition sendSse :: "(js_value \<Rightarrow> string) \<Rightarrow> response \<Rightarrow> js_value \<Rightarrow> response" where
  "sendSse stringify res payload =
     (if writableEnded res then res
      else res_write (''data: '' @ stringify payload @ [CHR 0x0A, CHR 0x0A]) res)"

definition sendSseDone :: "response \<Rightarrow> response" where
  "sendSseDone res =
     (if writableEnded res then res
      else res_end (res_write (''data: [DONE]'' @ [CHR 0x0A, CHR 0x0A]) res))"

definition heartbeat_chunk :: "(int \<Rightarrow> string) \<Rightarrow> int \<Rightarrow> string option \<Rightarrow> js_value" where
  "heartbeat_chunk num_to_string now modelName =
     JObj [(''id'', JStr (''chatcmpl-'' @ num_to_string now)),
           (''object'', JStr ''chat.completion.chunk''),
           (''created'', JNum (now div 1000)),
           (''model'', JStr (str_or modelName ''default-model'')),
           (''choices'', JArr [JObj [(''index'', JNum 0),
                                     (''delta'', JObj [(''content'', JStr [])]),
                                     (''finish_reason'', JNull)]])]"

definition sendHeartbeat ::
  "(js_value \<Rightarrow> string) \<Rightarrow> (int \<Rightarrow> string) \<Rightarrow> int \<Rightarrow>
   response \<Rightarrow> string \<Rightarrow> string option \<Rightarrow> response" where
  "sendHeartbeat stringify num_to_string now res mode modelName =
     (if writableEnded res then res
      else if mode = ''comment'' then res_write ('':keepalive'' @ [CHR 0x0A, CHR 0x0A]) res
      else res_write (''data: '' @ stringify (heartbeat_chunk num_to_string now modelName)
                  @ [CHR 0x0A, CHR 0x0A]) res)"

section \<open>Results of an attempt\<close>

text \<open>
  An attempt function and an adapter return an object \<open>{error?, ...}\<close>. The fields the
  program reads or writes are \<open>error\<close>, \<open>code\<close> and \<open>retryable\<close>; the other fields
  (\<open>text\<close>, \<open>image\<close>, ...) are kept as they are in \<open>rest\<close>. An absent field is
  \<open>None\<close>. A call either returns such an object or throws; \<open>Thrown msg\<close> carries the
  string \<open>err.message || String(err)\<close> of the exception.
\<close>

record result =
  error :: "string option"
  code :: "string option"
  retryable :: "bool option"
  rest :: "(string \<times> js_value) list"

datatype outcome = Returned result | Thrown string

text \<open>\<open>!result.error\<close>: an absent and an empty error are both falsy.\<close>

definition no_error :: "result \<Rightarrow> bool" where
  "no_error r = (case error r of None \<Rightarrow> True | Some e \<Rightarrow> e = [])"

text \<open>The object \<open>{ error: msg }\<close>.\<close>

definition error_result :: "string \<Rightarrow> result" where
  "error_result msg = \<lparr>error = Some msg, code = None, retryable = None, rest = []\<rparr>"

text \<open>\<open>`${lastError}`\<close>: \<open>null\<close> prints as the four letters.\<close>

definition interpolate :: "string option \<Rightarrow> string" where
  "interpolate lastError = (case lastError of None \<Rightarrow> ''null'' | Some e \<Rightarrow> e)"

text \<open>
  The message literals of the source are Chinese; a string here is a list of bytes, so
  each literal is given by its UTF-8 encoding.
\<close>

definition msg_no_candidates :: string where
  \<comment> \<open>U+6CA1 U+6709 U+53EF U+7528 U+7684 U+5019 U+9009\<close>
  "msg_no_candidates =
     [CHR 0xE6, CHR 0xB2, CHR 0xA1, CHR 0xE6, CHR 0x9C, CHR 0x89, CHR 0xE5, CHR 0x8F, CHR 0xAF,
      CHR 0xE7, CHR 0x94, CHR 0xA8, CHR 0xE7, CHR 0x9A, CHR 0x84, CHR 0xE5, CHR 0x80, CHR 0x99,
      CHR 0xE9, CHR 0x80, CHR 0x89]"

definition msg_all_candidates_failed :: string where
  \<comment> \<open>U+6240 U+6709 U+5019 U+9009 U+90FD U+5931 U+8D25, then a colon and a space\<close>
  "msg_all_candidates_failed =
     [CHR 0xE6, CHR 0x89, CHR 0x80, CHR 0xE6, CHR 0x9C, CHR 0x89, CHR 0xE5, CHR 0x80, CHR 0x99,
      CHR 0xE9, CHR 0x80, CHR 0x89, CHR 0xE9, CHR 0x83, CHR 0xBD, CHR 0xE5, CHR 0xA4, CHR 0xB1,
      CHR 0xE8, CHR 0xB4, CHR 0xA5] @ '': ''"

definition msg_unsupported_model :: string where
  \<comment> \<open>a space, U+4E0D U+652F U+6301 U+6A21 U+578B, then a colon and a space\<close>
  "msg_unsupported_model =
     '' '' @ [CHR 0xE4, CHR 0xB8, CHR 0x8D, CHR 0xE6, CHR 0x94, CHR 0xAF, CHR 0xE6, CHR 0x8C,
      CHR 0x81, CHR 0xE6, CHR 0xA8, CHR 0xA1, CHR 0xE5, CHR 0x9E, CHR 0x8B] @ '': ''"

definition msg_adapter_missing :: string where
  \<comment> \<open>U+9002 U+914D U+5668 U+4E0D U+5B58 U+5728, then a colon and a space\<close>
  "msg_adapter_missing =
     [CHR 0xE9, CHR 0x80, CHR 0x82, CHR 0xE9, CHR 0x85, CHR 0x8D, CHR 0xE5, CHR 0x99, CHR 0xA8,
      CHR 0xE4, CHR 0xB8, CHR 0x8D, CHR 0xE5, CHR 0xAD, CHR 0x98, CHR 0xE5, CHR 0x9C, CHR 0xA8]
     @ '': ''"

definition msg_all_adapters_unusable :: string where
  \<comment> \<open>U+6240 U+6709 U+652F U+6301 U+8BE5 U+6A21 U+578B U+7684 U+9002 U+914D U+5668 U+90FD
      U+65E0 U+6CD5 U+4F7F U+7528, then a colon and a space\<close>
  "msg_all_adapters_unusable =
     [CHR 0xE6, CHR 0x89, CHR 0x80, CHR 0xE6, CHR 0x9C, CHR 0x89, CHR 0xE6, CHR 0x94, CHR 0xAF,
      CHR 0xE6, CHR 0x8C, CHR 0x81, CHR 0xE8, CHR 0xAF, CHR 0xA5, CHR 0xE6, CHR 0xA8, CHR 0xA1,
      CHR 0xE5, CHR 0x9E, CHR 0x8B, CHR 0xE7, CHR 0x9A, CHR 0x84, CHR 0xE9, CHR 0x80, CHR 0x82,
      CHR 0xE9, CHR 0x85, CHR 0x8D, CHR 0xE5, CHR 0x99, CHR 0xA8, CHR 0xE9, CHR 0x83, CHR 0xBD,
      CHR 0xE6, CHR 0x97, CHR 0xA0, CHR 0xE6, CHR 0xB3, CHR 0x95, CHR 0xE4, CHR 0xBD, CHR 0xBF,
      CHR 0xE7, CHR 0x94, CHR 0xA8] @ '': ''"

section \<open>The failover executor (\<open>backend/failover.js\<close>)\<close>

text \<open>
  What \<open>execute\<close> does besides returning: it calls the attempt function, it writes a
  debug line when an error is classified as not retryable, and it calls \<open>onRetry\<close>.
  The trace records the three, in order.
\<close>

datatype 'c fo_event =
    Attempt 'c
  | SkipLogged string
  | OnRetry 'c string nat

definition is_skip_log :: "'c fo_event \<Rightarrow> bool" where
  "is_skip_log e = (case e of SkipLogged _ \<Rightarrow> True | _ \<Rightarrow> False)"

text \<open>
  \<open>maxRetries === 0 ? candidates.length : Math.min(maxRetries + 1, candidates.length)\<close>
\<close>

definition maxAttempts :: "int \<Rightarrow> nat \<Rightarrow> int" where
  "maxAttempts maxRetries n = (if maxRetries = 0 then int n else min (maxRetries + 1) (int n))"

text \<open>
  \<open>options.maxRetries ?? RETRY.MAX_ATTEMPTS\<close>: only an absent option takes the default.
  The constant lives in \<open>utils/constants.js\<close> and is a parameter here.
\<close>

definition option_maxRetries :: "int \<Rightarrow> int option \<Rightarrow> int" where
  "option_maxRetries RETRY_MAX_ATTEMPTS opt =
     (case opt of None \<Rightarrow> RETRY_MAX_ATTEMPTS | Some m \<Rightarrow> m)"

text \<open>
  What the executor does after a failed attempt number \<open>i\<close> with error \<open>e\<close>: the debug
  line (only when the classifier says not retryable and an attempt is left), then
  \<open>onRetry\<close> (only when an attempt is left). A thrown exception skips the
  classification.
\<close>

definition after_error ::
  "(string \<Rightarrow> bool) \<Rightarrow> int \<Rightarrow> nat \<Rightarrow> 'c \<Rightarrow> string \<Rightarrow> 'c fo_event list" where
  "after_error normalized_retryable maxA i candidate e =
     (if \<not> normalized_retryable e \<and> int i < maxA - 1 then [SkipLogged e] else [])
     @ (if int i < maxA - 1 then [OnRetry candidate e (i + 1)] else [])"

definition after_throw :: "int \<Rightarrow> nat \<Rightarrow> 'c \<Rightarrow> string \<Rightarrow> 'c fo_event list" where
  "after_throw maxA i candidate e =
     (if int i < maxA - 1 then [OnRetry candidate e (i + 1)] else [])"

definition exhausted :: "string option \<Rightarrow> result" where
  "exhausted lastError =
     \<lparr>error = Some (msg_all_candidates_failed @ interpolate lastError),
      code = Some ''FAILOVER_EXHAUSTED'',
      retryable = Some False,
      rest = []\<rparr>"

text \<open>
  The loop \<open>for (let i = 0; i < maxAttempts; i++)\<close>. The attempt function is effectful, so
  its answer may differ from call to call: it takes the number of the attempt as well as
  the candidate. \<open>normalized_retryable e\<close> is \<open>normalizeError(e).retryable\<close>
  (\<open>backend/utils/error.js\<close>, a parameter). The index stays inside the list:
  \<open>maxAttempts\<close> is never more than the number of candidates.
\<close>

function failover_loop ::
  "(string \<Rightarrow> bool) \<Rightarrow> (nat \<Rightarrow> 'c \<Rightarrow> outcome) \<Rightarrow> 'c list \<Rightarrow> int \<Rightarrow>
   nat \<Rightarrow> string option \<Rightarrow> 'c fo_event list \<Rightarrow> result \<times> 'c fo_event list" where
  "failover_loop normalized_retryable exec candidates maxA i lastError trace =
     (if int i < maxA then
        (let candidate = candidates ! i in
         case exec i candidate of
           Returned r \<Rightarrow>
             if no_error r then (r, trace @ [Attempt candidate])
             else failover_loop normalized_retryable exec candidates maxA (i + 1) (error r)
                    (trace @ [Attempt candidate]
                       @ after_error normalized_retryable maxA i candidate (the (error r)))
         | Thrown msg \<Rightarrow>
             failover_loop normalized_retryable exec candidates maxA (i + 1) (Some msg)
               (trace @ [Attempt candidate] @ after_throw maxA i candidate msg))
      else (exhausted lastError, trace))"
  by pat_completeness auto
termination
  by (relation "measure (\<lambda>(nr, exec, cs, maxA, i, le, tr). nat (maxA - int i))") auto

declare failover_loop.simps [simp del]

definition execute ::
  "int \<Rightarrow> (string \<Rightarrow> bool) \<Rightarrow> 'c list \<Rightarrow> (nat \<Rightarrow> 'c \<Rightarrow> outcome) \<Rightarrow>
   result \<times> 'c fo_event list" where
  "execute maxRetries normalized_retryable candidates exec =
     (if length candidates = 0 then (error_result msg_no_candidates, [])
      else failover_loop normalized_retryable exec candidates
             (maxAttempts maxRetries (length candidates)) 0 None [])"

definition attempts :: "'c fo_event list \<Rightarrow> 'c list" where
  "attempts trace = concat (map (\<lambda>e. case e of Attempt c \<Rightarrow> [c] | _ \<Rightarrow> []) trace)"

text \<open>
  \<open>executeWithFailover\<close>: the executor made from the options, run once. Of the options
  only \<open>maxRetries\<close> matters here.
\<close>

definition executeWithFailover ::
  "int \<Rightarrow> (string \<Rightarrow> bool) \<Rightarrow> 'c list \<Rightarrow> (nat \<Rightarrow> 'c \<Rightarrow> outcome) \<Rightarrow> int option \<Rightarrow>
   result \<times> 'c fo_event list" where
  "executeWithFailover RETRY_MAX_ATTEMPTS normalized_retryable candidates exec options_maxRetries =
     execute (option_maxRetries RETRY_MAX_ATTEMPTS options_maxRetries)
       normalized_retryable candidates exec"

text \<open>
  The outcome of attempt \<open>i\<close> as the loop reads it: whether it counts as a failure, and the
  error string the loop keeps in \<open>lastError\<close> then.
\<close>

definition attempt_fails :: "(nat \<Rightarrow> 'c \<Rightarrow> outcome) \<Rightarrow> 'c list \<Rightarrow> nat \<Rightarrow> bool" where
  "attempt_fails exec candidates i =
     (case exec i (candidates ! i) of Returned r \<Rightarrow> \<not> no_error r | Thrown _ \<Rightarrow> True)"

definition attempt_error :: "(nat \<Rightarrow> 'c \<Rightarrow> outcome) \<Rightarrow> 'c list \<Rightarrow> nat \<Rightarrow> string" where
  "attempt_error exec candidates i =
     (case exec i (candidates ! i) of Returned r \<Rightarrow> the (error r) | Thrown msg \<Rightarrow> msg)"

section \<open>Model keys\<close>

text \<open>
  \<open>s.split(c)\<close> of JavaScript: the pieces between the occurrences of the separator; a
  string without the separator is one piece, the empty string too.
  \<open>modelKey.split('/', 2)\<close> keeps the first two pieces.
\<close>

fun split_on :: "char \<Rightarrow> string \<Rightarrow> string list" where
  "split_on c [] = [[]]"
| "split_on c (x # xs) =
     (if x = c then [] # split_on c xs
      else (case split_on c xs of [] \<Rightarrow> [[x]] | p # ps \<Rightarrow> (x # p) # ps))"

definition split_limit :: "char \<Rightarrow> nat \<Rightarrow> string \<Rightarrow> string list" where
  "split_limit c n s = take n (split_on c s)"

text \<open>\<open>modelKey.includes('/')\<close>\<close>

definition includes_slash :: "string \<Rightarrow> bool" where
  "includes_slash modelKey = (CHR ''/'' \<in> set modelKey)"

text \<open>
  \<open>const [specifiedType, actualModel] = modelKey.split('/', 2)\<close>. The source
  destructures only after \<open>includes('/')\<close> has answered true, when two pieces exist.
\<close>

definition specifiedType :: "string \<Rightarrow> string" where
  "specifiedType modelKey = split_limit CHR ''/'' 2 modelKey ! 0"

definition actualModel :: "string \<Rightarrow> string" where
  "actualModel modelKey = split_limit CHR ''/'' 2 modelKey ! 1"

section \<open>The adapter registry, as the Worker uses it\<close>

text \<open>
  The registry module is not part of the sources at hand; the Worker is verified for any
  registry. A model descriptor has an \<open>id\<close>, possibly an \<open>owned_by\<close>, and other fields.
  An adapter's \<open>generate\<close> is effectful: its answer depends on the call (numbered by the
  calls the Worker has made so far) and on the model id; the context, the prompt, the
  image paths and the metadata are handed through unchanged and are left out.
  \<open>getModelsForAdapter t\<close> is \<open>registry.getModelsForAdapter(t)?.data\<close>.
\<close>

record model =
  model_id :: string
  owned_by :: "string option"
  model_fields :: "(string \<times> js_value) list"

type_synonym adapter = "nat \<Rightarrow> string \<Rightarrow> outcome"

record registry =
  supportsModel :: "string \<Rightarrow> string \<Rightarrow> bool"
  registry_getImagePolicy :: "string \<Rightarrow> string \<Rightarrow> string"
  getModelsForAdapter :: "string \<Rightarrow> model list option"
  getAdapter :: "string \<Rightarrow> adapter option"
  getTargetUrl :: "string \<Rightarrow> string option"
  getNavigationHandlers :: "string \<Rightarrow> nat list"

section \<open>The Worker\<close>

record page =
  authState :: "bool option"
  cursor :: bool
  framenavigated :: "nat list list"

record worker =
  name :: string
  type :: string
  instanceName :: "string option"
  userDataDir :: string
  proxyConfig :: "proxy_block option"
  mergeTypes :: "string list"
  mergeMonitor :: "string option"
  browser :: "nat option"
  page :: "page option"
  busyCount :: int
  initialized :: bool

text \<open>
  The Worker's configuration entry and the constructor. \<open>workerConfig.mergeTypes || []\<close>
  and \<open>workerConfig.instanceName || null\<close> give the defaults.
\<close>

record worker_config =
  wc_name :: string
  wc_type :: string
  wc_instanceName :: "string option"
  wc_userDataDir :: string
  wc_resolvedProxy :: "proxy_block option"
  wc_mergeTypes :: "string list option"
  wc_mergeMonitor :: "string option"

definition new_worker :: "worker_config \<Rightarrow> worker" where
  "new_worker workerConfig =
     \<lparr>name = wc_name workerConfig,
      type = wc_type workerConfig,
      instanceName = wc_instanceName workerConfig,
      userDataDir = wc_userDataDir workerConfig,
      proxyConfig = wc_resolvedProxy workerConfig,
      mergeTypes = (case wc_mergeTypes workerConfig of None \<Rightarrow> [] | Some ts \<Rightarrow> ts),
      mergeMonitor = wc_mergeMonitor workerConfig,
      browser = None,
      page = None,
      busyCount = 0,
      initialized = False\<rparr>"

text \<open>\<open>xs[0]\<close>, which is \<open>undefined\<close> on an empty array.\<close>

definition first :: "'a list \<Rightarrow> 'a option" where
  "first xs = (case xs of [] \<Rightarrow> None | x # _ \<Rightarrow> Some x)"

definition supports :: "registry \<Rightarrow> worker \<Rightarrow> string \<Rightarrow> bool" where
  "supports reg w modelId =
     (if type w = ''merge'' then
        (if list_ex (\<lambda>t. supportsModel reg t modelId) (mergeTypes w) then True
         else if includes_slash modelId \<and> specifiedType modelId \<in> set (mergeTypes w)
         then supportsModel reg (specifiedType modelId) (actualModel modelId)
         else False)
      else if includes_slash modelId then
        (if specifiedType modelId = type w
         then supportsModel reg (type w) (actualModel modelId)
         else False)
      else supportsModel reg (type w) modelId)"

definition getAdapterType :: "registry \<Rightarrow> worker \<Rightarrow> string \<Rightarrow> string option" where
  "getAdapterType reg w modelKey =
     (if type w = ''merge'' then
        (if includes_slash modelKey then
           (if specifiedType modelKey \<in> set (mergeTypes w)
            then Some (specifiedType modelKey)
            else first (mergeTypes w))
         else (case find (\<lambda>t. supportsModel reg t modelKey) (mergeTypes w) of
                 Some t \<Rightarrow> Some t
               | None \<Rightarrow> first (mergeTypes w)))
      else Some (type w))"

definition getCandidateTypes :: "registry \<Rightarrow> worker \<Rightarrow> string \<Rightarrow> (string \<times> string) list" where
  "getCandidateTypes reg w modelKey =
     (if includes_slash modelKey then
        (if specifiedType modelKey \<in> set (mergeTypes w)
            \<and> supportsModel reg (specifiedType modelKey) (actualModel modelKey)
         then [(specifiedType modelKey, actualModel modelKey)]
         else [])
      else map (\<lambda>t. (t, modelKey)) (filter (\<lambda>t. supportsModel reg t modelKey) (mergeTypes w)))"

text \<open>
  \<open>_executeAdapter\<close> in two parts, cut at its only suspension point
  \<open>await adapter.generate(...)\<close>. The first part looks the adapter up and, when there is
  one, increments the counter; the second part is the \<open>finally\<close> block, which runs
  however the adapter's promise settles.
\<close>

definition executeAdapter_begin :: "registry \<Rightarrow> worker \<Rightarrow> string \<Rightarrow> result + adapter \<times> worker" where
  "executeAdapter_begin reg w t =
     (case getAdapter reg t of
        None \<Rightarrow> Inl (error_result (msg_adapter_missing @ t))
      | Some a \<Rightarrow> Inr (a, w\<lparr>busyCount := busyCount w + 1\<rparr>))"

definition executeAdapter_finally :: "worker \<Rightarrow> worker" where
  "executeAdapter_finally w = w\<lparr>busyCount := busyCount w - 1\<rparr>"

text \<open>
  A call of \<open>_executeAdapter\<close> that runs to its end. \<open>calls\<close> lists the adapter
  invocations made so far, as pairs of adapter type and model id.
\<close>

definition executeAdapter ::
  "registry \<Rightarrow> worker \<Rightarrow> (string \<times> string) list \<Rightarrow> string \<Rightarrow> string \<Rightarrow>
   outcome \<times> worker \<times> (string \<times> string) list" where
  "executeAdapter reg w calls t modelId =
     (case executeAdapter_begin reg w t of
        Inl r \<Rightarrow> (Returned r, w, calls)
      | Inr (a, w1) \<Rightarrow>
          (a (length calls) modelId, executeAdapter_finally w1, calls @ [(t, modelId)]))"

text \<open>
  \<open>backend.pool.failover\<close> of the global configuration; an absent field is \<open>None\<close>.
\<close>

record failover_config =
  fo_enabled :: "bool option"
  fo_maxRetries :: "int option"

text \<open>\<open>failoverConfig.maxRetries || 2\<close>: an absent value and \<open>0\<close> are both falsy.\<close>

definition merge_maxRetries :: "failover_config \<Rightarrow> int" where
  "merge_maxRetries failoverConfig =
     (case fo_maxRetries failoverConfig of None \<Rightarrow> 2 | Some m \<Rightarrow> if m = 0 then 2 else m)"

text \<open>
  The loop of \<open>_generateWithFailover\<close>. There is no \<open>try\<close> around the adapter call: an
  exception of the adapter leaves the loop and the method.
\<close>

function merge_loop ::
  "registry \<Rightarrow> (string \<times> string) list \<Rightarrow> int \<Rightarrow> nat \<Rightarrow> string option \<Rightarrow>
   worker \<Rightarrow> (string \<times> string) list \<Rightarrow> outcome \<times> worker \<times> (string \<times> string) list" where
  "merge_loop reg candidateTypes maxA i lastError w calls =
     (if int i < maxA then
        (case executeAdapter reg w calls (fst (candidateTypes ! i)) (snd (candidateTypes ! i)) of
           (Thrown msg, w1, calls1) \<Rightarrow> (Thrown msg, w1, calls1)
         | (Returned r, w1, calls1) \<Rightarrow>
             if no_error r then (Returned r, w1, calls1)
             else merge_loop reg candidateTypes maxA (i + 1) (error r) w1 calls1)
      else (Returned (error_result (msg_all_adapters_unusable @ interpolate lastError)),
            w, calls))"
  by pat_completeness auto
termination
  by (relation "measure (\<lambda>(reg, cs, maxA, i, le, w, calls). nat (maxA - int i))") auto

declare merge_loop.simps [simp del]

definition generateWithFailover ::
  "registry \<Rightarrow> failover_config \<Rightarrow> worker \<Rightarrow> (string \<times> string) list \<Rightarrow> string \<Rightarrow>
   outcome \<times> worker \<times> (string \<times> string) list" where
  "generateWithFailover reg failoverConfig w calls modelId =
     (let maxRetries = merge_maxRetries failoverConfig;
          candidateTypes = getCandidateTypes reg w modelId
      in if length candidateTypes = 0
         then (Returned (error_result
                 (''Worker ['' @ name w @ '']'' @ msg_unsupported_model @ modelId)), w, calls)
         else merge_loop reg candidateTypes
                (maxAttempts maxRetries (length candidateTypes)) 0 None w calls)"

text \<open>
  \<open>generate\<close>. \<open>failoverConfig.enabled !== false\<close>: failover is on unless the flag is
  exactly \<open>false\<close>. When \<open>_getAdapterType\<close> answers \<open>undefined\<close> (a merge Worker with
  no member types), the registry is taken to know no adapter of that name.
\<close>

definition generate ::
  "registry \<Rightarrow> failover_config \<Rightarrow> worker \<Rightarrow> (string \<times> string) list \<Rightarrow> string \<Rightarrow>
   outcome \<times> worker \<times> (string \<times> string) list" where
  "generate reg failoverConfig w calls modelId =
     (let failoverEnabled = (fo_enabled failoverConfig \<noteq> Some False) in
      if type w = ''merge'' \<and> failoverEnabled
      then generateWithFailover reg failoverConfig w calls modelId
      else if \<not> supports reg w modelId
      then (Returned (error_result
              (''Worker ['' @ name w @ '']'' @ msg_unsupported_model @ modelId)), w, calls)
      else (let actualModelId = (if includes_slash modelId then actualModel modelId else modelId)
            in case getAdapterType reg w modelId of
                 None \<Rightarrow> (Returned (error_result (msg_adapter_missing @ ''undefined'')), w, calls)
               | Some t \<Rightarrow> executeAdapter reg w calls t actualModelId))"

text \<open>Several calls of \<open>generate\<close>, one after the other.\<close>

fun generate_seq ::
  "registry \<Rightarrow> failover_config \<Rightarrow> string list \<Rightarrow> worker \<times> (string \<times> string) list \<Rightarrow>
   worker \<times> (string \<times> string) list" where
  "generate_seq reg failoverConfig [] s = s"
| "generate_seq reg failoverConfig (modelId # modelIds) s =
     (case generate reg failoverConfig (fst s) (snd s) modelId of
        (out, w1, calls1) \<Rightarrow> generate_seq reg failoverConfig modelIds (w1, calls1))"

text \<open>
  Overlapping calls. The runtime is single-threaded: between two suspension points the
  code runs alone. What can happen to one Worker is a sequence of two kinds of steps:
  a call of \<open>_executeAdapter\<close> runs up to its \<open>await\<close> (\<open>Enter\<close>), or the adapter
  promise of a suspended call settles, with a result or an exception, and the
  \<open>finally\<close> block runs (\<open>Leave\<close>). The second component of the state counts the
  calls suspended at the \<open>await\<close>; a \<open>Leave\<close> with none suspended cannot happen.
\<close>

datatype worker_event = Enter string | Leave outcome

definition worker_step ::
  "registry \<Rightarrow> worker_event \<Rightarrow> worker \<times> nat \<Rightarrow> (worker \<times> nat) option" where
  "worker_step reg ev s =
     (case ev of
        Enter t \<Rightarrow>
          (case executeAdapter_begin reg (fst s) t of
             Inl r \<Rightarrow> Some s
           | Inr (a, w1) \<Rightarrow> Some (w1, snd s + 1))
      | Leave out \<Rightarrow>
          (if snd s = 0 then None else Some (executeAdapter_finally (fst s), snd s - 1)))"

fun worker_run ::
  "registry \<Rightarrow> worker_event list \<Rightarrow> worker \<times> nat \<Rightarrow> (worker \<times> nat) option" where
  "worker_run reg [] s = Some s"
| "worker_run reg (ev # evs) s =
     (case worker_step reg ev s of None \<Rightarrow> None | Some s1 \<Rightarrow> worker_run reg evs s1)"

text \<open>
  \<open>getModels\<close>. For a merge Worker the first pass lists every model of every member
  type under \<open>owned_by: 'internal_server'\<close>, skipping an id that was seen before; the
  second pass lists every model of every member type again, with the id prefixed by the
  type and owned by the type. A Worker of one type lists its models twice in the same
  way, without looking for repeated ids.
\<close>

definition models_of :: "registry \<Rightarrow> string \<Rightarrow> model list" where
  "models_of reg t = (case getModelsForAdapter reg t of None \<Rightarrow> [] | Some ms \<Rightarrow> ms)"

definition internal_entry :: "model \<Rightarrow> model" where
  "internal_entry m = m\<lparr>owned_by := Some ''internal_server''\<rparr>"

definition qualified_entry :: "string \<Rightarrow> model \<Rightarrow> model" where
  "qualified_entry t m = m\<lparr>model_id := t @ ''/'' @ model_id m, owned_by := Some t\<rparr>"

definition push_unseen :: "model \<Rightarrow> model list \<times> string set \<Rightarrow> model list \<times> string set" where
  "push_unseen m acc =
     (if model_id m \<in> snd acc then acc
      else (fst acc @ [internal_entry m], insert (model_id m) (snd acc)))"

definition getModels :: "registry \<Rightarrow> worker \<Rightarrow> model list" where
  "getModels reg w =
     (if type w = ''merge'' then
        (let allModels = fst (fold (\<lambda>t acc. fold push_unseen (models_of reg t) acc)
                                (mergeTypes w) ([], {}))
         in fold (\<lambda>t all. fold (\<lambda>m all. all @ [qualified_entry t m]) (models_of reg t) all)
              (mergeTypes w) allModels)
      else
        (let models = models_of reg (type w);
             allModels = fold (\<lambda>m all. all @ [internal_entry m]) models []
         in fold (\<lambda>m all. all @ [qualified_entry (type w) m]) models allModels))"

text \<open>
  \<open>getImagePolicy\<close>. For a merge Worker and a key that does not name a member type, the
  policies of the member types that support the key are collected in a set, and the
  answer is read off the set in the order \<open>optional\<close>, \<open>required\<close>, \<open>forbidden\<close>,
  with \<open>optional\<close> when none of the three is in the set.
\<close>

definition collect_policies :: "registry \<Rightarrow> worker \<Rightarrow> string \<Rightarrow> string set" where
  "collect_policies reg w modelKey =
     fold (\<lambda>t policies.
             if supportsModel reg t modelKey
             then insert (registry_getImagePolicy reg t modelKey) policies
             else policies)
       (mergeTypes w) {}"

definition getImagePolicy :: "registry \<Rightarrow> worker \<Rightarrow> string \<Rightarrow> string" where
  "getImagePolicy reg w modelKey =
     (if type w = ''merge'' then
        (if includes_slash modelKey \<and> specifiedType modelKey \<in> set (mergeTypes w)
         then registry_getImagePolicy reg (specifiedType modelKey) (actualModel modelKey)
         else (let policies = collect_policies reg w modelKey
               in if ''optional'' \<in> policies then ''optional''
                  else if ''required'' \<in> policies then ''required''
                  else if ''forbidden'' \<in> policies then ''forbidden''
                  else ''optional''))
      else registry_getImagePolicy reg (type w) modelKey)"

text \<open>
  \<open>init\<close>. What the method does to the world is recorded as a list of effects; what it
  reads from the world is the environment: whether the user-data directory exists,
  whether the process runs in login mode, what the launcher and the browser answer
  (\<open>None\<close> when the call throws), and which navigations fail. A browser is a handle.
\<close>

datatype init_effect =
    MkdirSync string
  | InitBrowserBase
  | NewPage nat
  | Goto string nat
  | OnBrowserClose nat

record init_env =
  dir_exists :: bool
  login_mode :: bool
  launched :: "(nat \<times> page) option"
  new_page :: "page option"
  goto_error :: "string \<Rightarrow> bool"

datatype init_outcome = Completed | Failed

text \<open>
  \<open>_navigateToTarget\<close>: a merge Worker tries the target of each member type in turn,
  30 s each, and stops at the first that loads; another Worker tries its one target,
  60 s. A failed navigation is logged, not thrown.
\<close>

fun goto_first :: "registry \<Rightarrow> (string \<Rightarrow> bool) \<Rightarrow> string list \<Rightarrow> init_effect list" where
  "goto_first reg goto_err [] = []"
| "goto_first reg goto_err (t # ts) =
     (case getTargetUrl reg t of
        None \<Rightarrow> goto_first reg goto_err ts
      | Some url \<Rightarrow>
          if url = [] then goto_first reg goto_err ts
          else if \<not> goto_err url then [Goto url 30000]
          else Goto url 30000 # goto_first reg goto_err ts)"

definition navigateToTarget :: "registry \<Rightarrow> init_env \<Rightarrow> worker \<Rightarrow> string \<Rightarrow> init_effect list" where
  "navigateToTarget reg env w targetUrl =
     (if type w = ''merge'' then goto_first reg (goto_error env) (mergeTypes w)
      else [Goto targetUrl 60000])"

text \<open>
  The page as both initialisers set it up: the auth flag cleared, the cursor created,
  and the merged navigation handler, when there is one, listening to
  \<open>framenavigated\<close>.
\<close>

definition prepare_page :: "page \<Rightarrow> nat list option \<Rightarrow> page" where
  "prepare_page p navigationHandler =
     (let p1 = p\<lparr>authState := Some False, cursor := True\<rparr>
      in case navigationHandler of
           None \<Rightarrow> p1
         | Some handlers \<Rightarrow> p1\<lparr>framenavigated := framenavigated p1 @ [handlers]\<rparr>)"

definition initWithSharedBrowser ::
  "registry \<Rightarrow> init_env \<Rightarrow> worker \<Rightarrow> nat \<Rightarrow> string \<Rightarrow> nat list option \<Rightarrow>
   init_outcome \<times> worker \<times> init_effect list" where
  "initWithSharedBrowser reg env w sharedBrowser targetUrl navigationHandler =
     (let w1 = w\<lparr>browser := Some sharedBrowser\<rparr>
      in case new_page env of
           None \<Rightarrow> (Failed, w1, [NewPage sharedBrowser])
         | Some p \<Rightarrow>
             (Completed, w1\<lparr>page := Some (prepare_page p navigationHandler)\<rparr>,
              NewPage sharedBrowser # navigateToTarget reg env w1 targetUrl))"

definition initNewBrowser ::
  "registry \<Rightarrow> init_env \<Rightarrow> worker \<Rightarrow> string \<Rightarrow> nat list option \<Rightarrow>
   init_outcome \<times> worker \<times> init_effect list" where
  "initNewBrowser reg env w targetUrl navigationHandler =
     (case launched env of
        None \<Rightarrow> (Failed, w, [InitBrowserBase])
      | Some (context, p) \<Rightarrow>
          (let w1 = w\<lparr>browser := Some context, page := Some (prepare_page p navigationHandler)\<rparr>
           in (Completed, w1,
               InitBrowserBase # navigateToTarget reg env w1 targetUrl
                 @ (if login_mode env then [OnBrowserClose context] else []))))"

definition init ::
  "registry \<Rightarrow> init_env \<Rightarrow> worker \<Rightarrow> nat option \<Rightarrow> init_outcome \<times> worker \<times> init_effect list" where
  "init reg env w sharedBrowser =
     (if initialized w then (Completed, w, [])
      else
        (let mk = (if \<not> dir_exists env then [MkdirSync (userDataDir w)] else []);
             targetUrl =
               (if type w = ''merge''
                then (case first (mergeTypes w) of
                        None \<Rightarrow> ''about:blank''
                      | Some firstType \<Rightarrow> str_or (getTargetUrl reg firstType) ''about:blank'')
                else str_or (getTargetUrl reg (type w)) ''about:blank'');
             typesToHandle = (if type w = ''merge'' then mergeTypes w else [type w]);
             handlers = concat (map (getNavigationHandlers reg) typesToHandle);
             navigationHandler =
               (if \<not> login_mode env \<and> handlers \<noteq> [] then Some handlers else None);
             r = (case sharedBrowser of
                    Some b \<Rightarrow> initWithSharedBrowser reg env w b targetUrl navigationHandler
                  | None \<Rightarrow> initNewBrowser reg env w targetUrl navigationHandler)
         in case r of
              (Failed, w1, fx) \<Rightarrow> (Failed, w1, mk @ fx)
            | (Completed, w1, fx) \<Rightarrow> (Completed, w1\<lparr>initialized := True\<rparr>, mk @ fx)))"

text \<open>
  The adapter call behind a candidate \<open>(type, modelId)\<close> when \<open>n\<close> adapter calls have
  been made before: what \<open>_executeAdapter\<close> returns or throws.
\<close>

definition candidate_outcome :: "registry \<Rightarrow> nat \<Rightarrow> string \<times> string \<Rightarrow> outcome" where
  "candidate_outcome reg n c =
     (case getAdapter reg (fst c) of
        None \<Rightarrow> Returned (error_result (msg_adapter_missing @ fst c))
      | Some a \<Rightarrow> a n (snd c))"

section \<open>Example configurations\<close>

text \<open>
  A registry with two adapters that both list the model \<open>m\<close>: \<open>a\<close> always answers
  with the error \<open>Timeout\<close> and forbids images, \<open>b\<close> answers with a text and requires
  images. The Worker merges the two.
\<close>


definition example_registry :: registry where
  "example_registry =
     \<lparr>supportsModel = (\<lambda>t m. (t = ''a'' \<or> t = ''b'') \<and> m = ''m''),
      registry_getImagePolicy = (\<lambda>t m. if t = ''a'' then ''forbidden'' else ''required''),
      getModelsForAdapter = (\<lambda>t. if t = ''a'' \<or> t = ''b''
         then Some [\<lparr>model_id = ''m'', owned_by = None, model_fields = []\<rparr>] else None),
      getAdapter = (\<lambda>t. if t = ''a'' then Some (\<lambda>n m. Returned (error_result ''Timeout''))
                        else if t = ''b''
                        then Some (\<lambda>n m. Returned \<lparr>error = None, code = None, retryable = None,
                                                   rest = [(''text'', JStr ''ok'')]\<rparr>)
                        else None),
      getTargetUrl = (\<lambda>t. Some (''https://'' @ t)),
      getNavigationHandlers = (\<lambda>t. [])\<rparr>"

definition example_worker_config :: worker_config where
  "example_worker_config =
     \<lparr>wc_name = ''w1'', wc_type = ''merge'', wc_instanceName = None, wc_userDataDir = ''data/u'',
      wc_resolvedProxy = None, wc_mergeTypes = Some [''a'', ''b''], wc_mergeMonitor = None\<rparr>"

definition example_worker :: worker where
  "example_worker = new_worker example_worker_config"

definition example_env :: init_env where
  "example_env = \<lparr>dir_exists = False, login_mode = False,
      launched = Some (1, \<lparr>authState = None, cursor = False, framenavigated = []\<rparr>),
      new_page = Some \<lparr>authState = None, cursor = False, framenavigated = []\<rparr>,
      goto_error = (\<lambda>u. u = ''https://a'')\<rparr>"

text \<open>
  A registry in which every adapter lists the model \<open>m\<close> and always answers with the
  error \<open>Timeout\<close>, and a Worker that merges four adapter types.
\<close>

definition failing_registry :: registry where
  "failing_registry =
     \<lparr>supportsModel = (\<lambda>t m. m = ''m''),
      registry_getImagePolicy = (\<lambda>t m. ''optional''),
      getModelsForAdapter = (\<lambda>t. Some [\<lparr>model_id = ''m'', owned_by = None, model_fields = []\<rparr>]),
      getAdapter = (\<lambda>t. Some (\<lambda>n m. Returned (error_result ''Timeout''))),
      getTargetUrl = (\<lambda>t. Some (''https://'' @ t)),
      getNavigationHandlers = (\<lambda>t. [])\<rparr>"

definition four_member_worker :: worker where
  "four_member_worker = new_worker
     \<lparr>wc_name = ''w4'', wc_type = ''merge'', wc_instanceName = None, wc_userDataDir = ''data/u'',
      wc_resolvedProxy = None, wc_mergeTypes = Some [''a'', ''b'', ''c'', ''d''],
      wc_mergeMonitor = None\<rparr>"

text \<open>
  A registry in which the adapter \<open>b\<close> lists a model whose id itself contains a slash,
  \<open>x/m\<close>; every adapter answers with a text that names it.
\<close>

definition slash_registry :: registry where
  "slash_registry =
     \<lparr>supportsModel = (\<lambda>t m. t = ''b'' \<and> m = ''x/m''),
      registry_getImagePolicy = (\<lambda>t m. ''optional''),
      getModelsForAdapter = (\<lambda>t. if t = ''b''
         then Some [\<lparr>model_id = ''x/m'', owned_by = None, model_fields = []\<rparr>] else None),
      getAdapter = (\<lambda>t. Some (\<lambda>n m. Returned \<lparr>error = None, code = None, retryable = None,
                                                 rest = [(''text'', JStr t)]\<rparr>)),
      getTargetUrl = (\<lambda>t. Some (''https://'' @ t)),
      getNavigationHandlers = (\<lambda>t. [])\<rparr>"

text \<open>
  The adapter types behind a Worker: the member types of a merge Worker, the one type
  of any other. An entry of the listing is the bare entry of an id, or the entry of an
  id qualified by a type.
\<close>

definition adapter_types :: "worker \<Rightarrow> string list" where
  "adapter_types w = (if type w = ''merge'' then mergeTypes w else [type w])"

definition is_internal_entry :: "string \<Rightarrow> model \<Rightarrow> bool" where
  "is_internal_entry mid e = (model_id e = mid \<and> owned_by e = Some ''internal_server'')"

definition is_qualified_entry :: "string \<Rightarrow> string \<Rightarrow> model \<Rightarrow> bool" where
  "is_qualified_entry t mid e = (model_id e = t @ ''/'' @ mid \<and> owned_by e = Some t)"

text \<open>
  What the first pass of \<open>getModels\<close> keeps true of the list built so far and of the set
  of ids seen so far.
\<close>

definition bare_inv :: "model list \<times> string set \<Rightarrow> bool" where
  "bare_inv s = (snd s = model_id ` set (fst s) \<and> distinct (map model_id (fst s))
                 \<and> (\<forall>e \<in> set (fst s). owned_by e = Some ''internal_server''))"

text \<open>
  The run of the merge loop when no adapter throws or succeeds before attempt \<open>j\<close>: the
  calls made before that attempt (a candidate whose adapter is missing makes none), the
  outcome of the attempt at that point of the run, whether it is an error result, and
  the error it leaves in \<open>lastError\<close>.
\<close>

definition calls_before ::
  "registry \<Rightarrow> (string \<times> string) list \<Rightarrow> (string \<times> string) list \<Rightarrow> nat \<Rightarrow>
   (string \<times> string) list" where
  "calls_before reg candidateTypes calls j =
     calls @ filter (\<lambda>c. getAdapter reg (fst c) \<noteq> None) (take j candidateTypes)"

definition merge_attempt ::
  "registry \<Rightarrow> (string \<times> string) list \<Rightarrow> (string \<times> string) list \<Rightarrow> nat \<Rightarrow> outcome" where
  "merge_attempt reg candidateTypes calls j =
     candidate_outcome reg (length (calls_before reg candidateTypes calls j)) (candidateTypes ! j)"

definition returns_error ::
  "registry \<Rightarrow> (string \<times> string) list \<Rightarrow> (string \<times> string) list \<Rightarrow> nat \<Rightarrow> bool" where
  "returns_error reg candidateTypes calls j =
     (case merge_attempt reg candidateTypes calls j of
        Returned r \<Rightarrow> \<not> no_error r
      | Thrown _ \<Rightarrow> False)"

definition returned_error ::
  "registry \<Rightarrow> (string \<times> string) list \<Rightarrow> (string \<times> string) list \<Rightarrow> nat \<Rightarrow> string" where
  "returned_error reg candidateTypes calls j =
     (case merge_attempt reg candidateTypes calls j of
        Returned r \<Rightarrow> the (error r)
      | Thrown msg \<Rightarrow> msg)"

text \<open>
  A registry in which the adapter \<open>a\<close> answers with the error \<open>Timeout\<close> the first time
  it is called and with a text afterwards, and \<open>b\<close> always answers with a text.
\<close>

definition flaky_registry :: registry where
  "flaky_registry =
     \<lparr>supportsModel = (\<lambda>t m. (t = ''a'' \<or> t = ''b'') \<and> m = ''m''),
      registry_getImagePolicy = (\<lambda>t m. ''optional''),
      getModelsForAdapter = (\<lambda>t. if t = ''a'' \<or> t = ''b''
         then Some [\<lparr>model_id = ''m'', owned_by = None, model_fields = []\<rparr>] else None),
      getAdapter = (\<lambda>t. if t = ''a''
                         then Some (\<lambda>n m. if n = 0 then Returned (error_result ''Timeout'')
                                          else Returned \<lparr>error = None, code = None,
                                                  retryable = None, rest = [(''text'', JStr ''a'')]\<rparr>)
                        else if t = ''b''
                         then Some (\<lambda>n m. Returned \<lparr>error = None, code = None, retryable = None,
                                                   rest = [(''text'', JStr ''b'')]\<rparr>)
                        else None),
      getTargetUrl = (\<lambda>t. Some (''https://'' @ t)),
      getNavigationHandlers = (\<lambda>t. [])\<rparr>"

text \<open>
  An attempt function for the candidates \<open>a\<close>, \<open>b\<close>, \<open>c\<close>: \<open>a\<close> fails with
  \<open>INVALID_MODEL\<close>, \<open>b\<close> fails with \<open>Timeout\<close>, \<open>c\<close> succeeds.
\<close>

definition skip_then_timeout :: "nat \<Rightarrow> string \<Rightarrow> outcome" where
  "skip_then_timeout i c =
     (if c = ''a'' then Returned (error_result ''INVALID_MODEL'')
      else if c = ''b'' then Returned (error_result ''Timeout'')
      else Returned \<lparr>error = None, code = None, retryable = None,
                      rest = [(''text'', JStr ''ok'')]\<rparr>)"

text \<open>
  A registry in which the adapter \<open>a\<close> lists the id \<open>m\<close> twice and an adapter called
  \<open>internal_server\<close> lists the ids \<open>m\<close> and \<open>internal_server/m\<close>; a Worker that
  merges \<open>a\<close> with itself, and Workers of the one type \<open>a\<close> and of the one type
  \<open>internal_server\<close>.
\<close>

definition repeating_registry :: registry where
  "repeating_registry =
     \<lparr>supportsModel = (\<lambda>t m. t = ''a'' \<and> m = ''m''),
      registry_getImagePolicy = (\<lambda>t m. ''optional''),
      getModelsForAdapter = (\<lambda>t.
         if t = ''a''
         then Some [\<lparr>model_id = ''m'', owned_by = None, model_fields = []\<rparr>,
                    \<lparr>model_id = ''m'', owned_by = None, model_fields = []\<rparr>]
         else if t = ''internal_server''
         then Some [\<lparr>model_id = ''m'', owned_by = None, model_fields = []\<rparr>,
                    \<lparr>model_id = ''internal_server/m'', owned_by = None, model_fields = []\<rparr>]
         else None),
      getAdapter = (\<lambda>t. None),
      getTargetUrl = (\<lambda>t. None),
      getNavigationHandlers = (\<lambda>t. [])\<rparr>"

definition twice_a_worker :: worker where
  "twice_a_worker = example_worker\<lparr>mergeTypes := [''a'', ''a'']\<rparr>"

definition single_a_worker :: worker where
  "single_a_worker = example_worker\<lparr>type := ''a'', mergeTypes := []\<rparr>"

definition internal_server_worker :: worker where
  "internal_server_worker = example_worker\<lparr>type := ''internal_server'', mergeTypes := []\<rparr>"

section \<open>Properties\<close>

subsection \<open>The failover executor\<close>

lemma attempts_append [simp]: "attempts (xs @ ys) = attempts xs @ attempts ys"
  by (simp add: attempts_def)

lemma attempts_Nil [simp]: "attempts [] = []"
  by (simp add: attempts_def)

lemma attempts_Attempt [simp]: "attempts (Attempt c # xs) = c # attempts xs"
  by (simp add: attempts_def)

lemma attempts_after_error [simp]: "attempts (after_error nr maxA i c e) = []"
  by (simp add: after_error_def attempts_def)

lemma attempts_after_throw [simp]: "attempts (after_throw maxA i c e) = []"
  by (simp add: after_throw_def attempts_def)

lemma failover_loop_all_fail:
  "(\<And>j. i \<le> j \<Longrightarrow> int j < maxA \<Longrightarrow> attempt_fails exec cs j) \<Longrightarrow>
   fst (failover_loop nr exec cs maxA i le tr) =
     exhausted (if int i < maxA then Some (attempt_error exec cs (nat maxA - 1)) else le)
   \<and> attempts (snd (failover_loop nr exec cs maxA i le tr)) =
       attempts tr @ map ((!) cs) [i..<nat maxA]"
proof (induction nr exec cs maxA i le tr rule: failover_loop.induct)
  case (1 nr exec cs maxA i le tr)
  show ?case
  proof (cases "int i < maxA")
    case False
    then show ?thesis by (simp add: failover_loop.simps[of nr exec cs maxA i])
  next
    case True
    have fails: "attempt_fails exec cs i" using "1.prems"[of i] True by simp
    have up: "[i..<nat maxA] = i # [Suc i..<nat maxA]"
      using True by (simp add: upt_conv_Cons)
    show ?thesis
    proof (cases "exec i (cs ! i)")
      case (Returned r)
      with fails have ne: "\<not> no_error r" by (simp add: attempt_fails_def)
      have IH: "fst (failover_loop nr exec cs maxA (i + 1) (error r) (tr @ [Attempt (cs ! i)] @ after_error nr maxA i (cs ! i) (the (error r)))) =
        exhausted (if int (i + 1) < maxA then Some (attempt_error exec cs (nat maxA - 1)) else error r)
        \<and> attempts (snd (failover_loop nr exec cs maxA (i + 1) (error r) (tr @ [Attempt (cs ! i)] @ after_error nr maxA i (cs ! i) (the (error r))))) =
          attempts (tr @ [Attempt (cs ! i)] @ after_error nr maxA i (cs ! i) (the (error r))) @ map ((!) cs) [i + 1..<nat maxA]"
        using "1.IH"(1)[OF True refl Returned ne] "1.prems" by simp
      have last: "\<not> int (i + 1) < maxA \<Longrightarrow> error r = Some (attempt_error exec cs (nat maxA - 1))"
      proof -
        assume "\<not> int (i + 1) < maxA"
        with True have "nat maxA - 1 = i" by linarith
        moreover from ne obtain e where "error r = Some e" by (auto simp: no_error_def split: option.splits)
        ultimately show ?thesis using Returned by (simp add: attempt_error_def)
      qed
      show ?thesis
        using True Returned ne IH last up
        by (simp add: failover_loop.simps[of nr exec cs maxA i] Let_def)
    next
      case (Thrown msg)
      have IH: "fst (failover_loop nr exec cs maxA (i + 1) (Some msg) (tr @ [Attempt (cs ! i)] @ after_throw maxA i (cs ! i) msg)) =
        exhausted (if int (i + 1) < maxA then Some (attempt_error exec cs (nat maxA - 1)) else Some msg)
        \<and> attempts (snd (failover_loop nr exec cs maxA (i + 1) (Some msg) (tr @ [Attempt (cs ! i)] @ after_throw maxA i (cs ! i) msg))) =
          attempts (tr @ [Attempt (cs ! i)] @ after_throw maxA i (cs ! i) msg) @ map ((!) cs) [i + 1..<nat maxA]"
        using "1.IH"(2)[OF True refl Thrown] "1.prems" by simp
      have last: "\<not> int (i + 1) < maxA \<Longrightarrow> msg = attempt_error exec cs (nat maxA - 1)"
      proof -
        assume "\<not> int (i + 1) < maxA"
        with True have "nat maxA - 1 = i" by linarith
        then show ?thesis using Thrown by (simp add: attempt_error_def)
      qed
      show ?thesis
        using True Thrown IH last up
        by (simp add: failover_loop.simps[of nr exec cs maxA i] Let_def)
    qed
  qed
qed


lemma failover_loop_done:
  "\<not> int i < maxA \<Longrightarrow> failover_loop nr exec cs maxA i le tr = (exhausted le, tr)"
  by (simp add: failover_loop.simps[of nr exec cs maxA i])

lemma failover_loop_success:
  "int i < maxA \<Longrightarrow> exec i (cs ! i) = Returned r \<Longrightarrow> no_error r \<Longrightarrow>
   failover_loop nr exec cs maxA i le tr = (r, tr @ [Attempt (cs ! i)])"
  by (simp add: failover_loop.simps[of nr exec cs maxA i] Let_def)

lemma failover_loop_failure:
  assumes "int i < maxA" and "attempt_fails exec cs i"
  shows "\<exists>evs. attempts evs = [] \<and>
           failover_loop nr exec cs maxA i le tr =
           failover_loop nr exec cs maxA (i + 1) (Some (attempt_error exec cs i))
             (tr @ Attempt (cs ! i) # evs)"
proof (cases "exec i (cs ! i)")
  case (Returned r)
  with assms(2) have ne: "\<not> no_error r" by (simp add: attempt_fails_def)
  then obtain msg where msg: "error r = Some msg"
    by (auto simp: no_error_def split: option.splits)
  have "failover_loop nr exec cs maxA i le tr =
        failover_loop nr exec cs maxA (i + 1) (Some (attempt_error exec cs i))
          (tr @ Attempt (cs ! i) # after_error nr maxA i (cs ! i) msg)"
    using assms(1) Returned ne msg
    by (simp add: failover_loop.simps[of nr exec cs maxA i] attempt_error_def Let_def)
  then show ?thesis
    by (intro exI[of _ "after_error nr maxA i (cs ! i) msg"]) simp
next
  case (Thrown msg)
  have "failover_loop nr exec cs maxA i le tr =
        failover_loop nr exec cs maxA (i + 1) (Some (attempt_error exec cs i))
          (tr @ Attempt (cs ! i) # after_throw maxA i (cs ! i) msg)"
    using assms(1) Thrown
    by (simp add: failover_loop.simps[of nr exec cs maxA i] attempt_error_def Let_def)
  then show ?thesis
    by (intro exI[of _ "after_throw maxA i (cs ! i) msg"]) simp
qed

lemma failover_loop_first_success:
  "i \<le> k \<Longrightarrow> int k < maxA \<Longrightarrow> (\<And>j. i \<le> j \<Longrightarrow> j < k \<Longrightarrow> attempt_fails exec cs j) \<Longrightarrow>
   exec k (cs ! k) = Returned r \<Longrightarrow> no_error r \<Longrightarrow>
   fst (failover_loop nr exec cs maxA i le tr) = r
   \<and> attempts (snd (failover_loop nr exec cs maxA i le tr)) = attempts tr @ map ((!) cs) [i..<Suc k]"
proof (induction "k - i" arbitrary: i le tr)
  case 0
  then have "i = k" by simp
  with 0 show ?case by (simp add: failover_loop_success)
next
  case (Suc n)
  then have lt: "i < k" by simp
  then have "int i < maxA" using Suc.prems(2) by simp
  moreover have "attempt_fails exec cs i" using Suc.prems(3)[of i] lt by simp
  ultimately obtain evs where evs: "attempts evs = []"
    and step: "failover_loop nr exec cs maxA i le tr =
           failover_loop nr exec cs maxA (i + 1) (Some (attempt_error exec cs i))
             (tr @ Attempt (cs ! i) # evs)"
    using failover_loop_failure[of i maxA exec cs nr le tr] by blast
  have "n = k - (i + 1)" using Suc.hyps(2) by simp
  from Suc.hyps(1)[OF this _ Suc.prems(2) _ Suc.prems(4,5),
      of "Some (attempt_error exec cs i)" "tr @ Attempt (cs ! i) # evs"]
  have "fst (failover_loop nr exec cs maxA (i + 1) (Some (attempt_error exec cs i)) (tr @ Attempt (cs ! i) # evs)) = r
      \<and> attempts (snd (failover_loop nr exec cs maxA (i + 1) (Some (attempt_error exec cs i)) (tr @ Attempt (cs ! i) # evs)))
        = attempts (tr @ Attempt (cs ! i) # evs) @ map ((!) cs) [i + 1..<Suc k]"
    using lt Suc.prems(3) by simp
  moreover have "[i..<Suc k] = i # [Suc i..<Suc k]" using lt by (simp add: upt_conv_Cons)
  ultimately show ?case using step evs by simp
qed

lemma failover_loop_classifier:
  "filter (\<lambda>e. \<not> is_skip_log e) tr = filter (\<lambda>e. \<not> is_skip_log e) tr' \<Longrightarrow>
   fst (failover_loop nr exec cs maxA i le tr) = fst (failover_loop nr' exec cs maxA i le tr')
   \<and> filter (\<lambda>e. \<not> is_skip_log e) (snd (failover_loop nr exec cs maxA i le tr))
     = filter (\<lambda>e. \<not> is_skip_log e) (snd (failover_loop nr' exec cs maxA i le tr'))"
proof (induction nr exec cs maxA i le tr arbitrary: tr' rule: failover_loop.induct)
  case (1 nr exec cs maxA i le tr)
  show ?case
  proof (cases "int i < maxA")
    case False
    then show ?thesis using "1.prems" by (simp add: failover_loop_done)
  next
    case True
    show ?thesis
    proof (cases "exec i (cs ! i)")
      case (Returned r)
      show ?thesis
      proof (cases "no_error r")
        case True
        then show ?thesis using \<open>int i < maxA\<close> Returned "1.prems"
          by (simp add: failover_loop_success is_skip_log_def)
      next
        case False
        have eq: "filter (\<lambda>e. \<not> is_skip_log e) (tr @ [Attempt (cs ! i)] @ after_error nr maxA i (cs ! i) (the (error r)))
           = filter (\<lambda>e. \<not> is_skip_log e) (tr' @ [Attempt (cs ! i)] @ after_error nr' maxA i (cs ! i) (the (error r)))"
          using "1.prems" by (simp add: after_error_def is_skip_log_def)
        show ?thesis
          using "1.IH"(1)[OF True refl Returned False eq] True Returned False
          by (simp add: failover_loop.simps[of _ exec cs maxA i] Let_def)
      qed
    next
      case (Thrown msg)
      have eq: "filter (\<lambda>e. \<not> is_skip_log e) (tr @ [Attempt (cs ! i)] @ after_throw maxA i (cs ! i) msg)
           = filter (\<lambda>e. \<not> is_skip_log e) (tr' @ [Attempt (cs ! i)] @ after_throw maxA i (cs ! i) msg)"
        using "1.prems" by simp
      show ?thesis
        using "1.IH"(2)[OF True refl Thrown eq] True Thrown
        by (simp add: failover_loop.simps[of _ exec cs maxA i] Let_def)
    qed
  qed
qed

lemma failover_loop_all_retryable_no_skip:
  "\<forall>e \<in> set tr. \<not> is_skip_log e \<Longrightarrow>
   \<forall>e \<in> set (snd (failover_loop (\<lambda>_. True) exec cs maxA i le tr)). \<not> is_skip_log e"
proof (induction "\<lambda>_::string. True" exec cs maxA i le tr rule: failover_loop.induct)
  case (1 exec cs maxA i le tr)
  show ?case
  proof (cases "int i < maxA")
    case False
    then show ?thesis using "1.prems" by (simp add: failover_loop_done)
  next
    case True
    show ?thesis
    proof (cases "exec i (cs ! i)")
      case (Returned r)
      show ?thesis
      proof (cases "no_error r")
        case True
        then show ?thesis using \<open>int i < maxA\<close> Returned "1.prems"
          by (simp add: failover_loop_success is_skip_log_def)
      next
        case False
        have pre: "\<forall>e \<in> set (tr @ [Attempt (cs ! i)] @ after_error (\<lambda>_. True) maxA i (cs ! i) (the (error r))). \<not> is_skip_log e"
          using "1.prems" by (auto simp add: after_error_def is_skip_log_def)
        show ?thesis
          using "1.hyps"(1)[OF True refl Returned False pre] True Returned False
          by (simp add: failover_loop.simps[of _ exec cs maxA i] Let_def)
      qed
    next
      case (Thrown msg)
      have pre: "\<forall>e \<in> set (tr @ [Attempt (cs ! i)] @ after_throw maxA i (cs ! i) msg). \<not> is_skip_log e"
        using "1.prems" by (auto simp add: after_throw_def is_skip_log_def)
      show ?thesis
        using "1.hyps"(2)[OF True refl Thrown pre] True Thrown
        by (simp add: failover_loop.simps[of _ exec cs maxA i] Let_def)
    qed
  qed
qed

lemma maxAttempts_bounds:
  "0 \<le> m \<Longrightarrow> 0 < n \<Longrightarrow> 1 \<le> maxAttempts m n \<and> maxAttempts m n \<le> int n"
  by (simp add: maxAttempts_def)

lemma map_nth_upt_take: "n \<le> length xs \<Longrightarrow> map ((!) xs) [0..<n] = take n xs"
  by (metis map_nth take_map take_upt add_0)

lemma execute_all_fail:
  assumes "cs \<noteq> []" and "0 \<le> m"
    and "\<And>j. int j < maxAttempts m (length cs) \<Longrightarrow> attempt_fails exec cs j"
  shows "fst (execute m nr cs exec) =
           exhausted (Some (attempt_error exec cs (nat (maxAttempts m (length cs)) - 1)))"
    and "attempts (snd (execute m nr cs exec)) = take (nat (maxAttempts m (length cs))) cs"
proof -
  have b: "1 \<le> maxAttempts m (length cs)" "maxAttempts m (length cs) \<le> int (length cs)"
    using assms(1,2) maxAttempts_bounds[of m "length cs"] by simp_all
  have l: "fst (failover_loop nr exec cs (maxAttempts m (length cs)) 0 None []) =
      exhausted (if int 0 < maxAttempts m (length cs)
                 then Some (attempt_error exec cs (nat (maxAttempts m (length cs)) - 1)) else None)
    \<and> attempts (snd (failover_loop nr exec cs (maxAttempts m (length cs)) 0 None [])) =
      attempts [] @ map ((!) cs) [0..<nat (maxAttempts m (length cs))]"
    by (rule failover_loop_all_fail) (use assms(3) in simp)
  show "fst (execute m nr cs exec) =
           exhausted (Some (attempt_error exec cs (nat (maxAttempts m (length cs)) - 1)))"
    using l b assms(1) by (simp add: execute_def)
  show "attempts (snd (execute m nr cs exec)) = take (nat (maxAttempts m (length cs))) cs"
    using l b assms(1) by (simp add: execute_def map_nth_upt_take)
qed

lemma execute_first_success:
  assumes "int k < maxAttempts m (length cs)" and "k < length cs"
    and "\<And>j. j < k \<Longrightarrow> attempt_fails exec cs j"
    and "exec k (cs ! k) = Returned r" and "no_error r"
  shows "fst (execute m nr cs exec) = r"
    and "attempts (snd (execute m nr cs exec)) = take (Suc k) cs"
proof -
  have ne: "cs \<noteq> []" using assms(2) by auto
  have l: "fst (failover_loop nr exec cs (maxAttempts m (length cs)) 0 None []) = r
    \<and> attempts (snd (failover_loop nr exec cs (maxAttempts m (length cs)) 0 None [])) =
      attempts [] @ map ((!) cs) [0..<Suc k]"
    by (rule failover_loop_first_success) (use assms in simp_all)
  show "fst (execute m nr cs exec) = r" using l ne by (simp add: execute_def)
  show "attempts (snd (execute m nr cs exec)) = take (Suc k) cs"
    using l ne assms(2) map_nth_upt_take[of "Suc k" cs] by (simp add: execute_def)
qed

lemma execute_classifier:
  "fst (execute m nr cs exec) = fst (execute m nr' cs exec)
   \<and> filter (\<lambda>e. \<not> is_skip_log e) (snd (execute m nr cs exec))
     = filter (\<lambda>e. \<not> is_skip_log e) (snd (execute m nr' cs exec))"
  using failover_loop_classifier[of "[]" "[]" nr exec cs "maxAttempts m (length cs)" 0 None nr']
  by (simp add: execute_def)

lemma attempts_filter_skip:
  "attempts (filter (\<lambda>e. \<not> is_skip_log e) tr) = attempts tr"
  by (induction tr) (auto simp: attempts_def is_skip_log_def split: fo_event.splits)

lemma execute_attempts_classifier:
  "attempts (snd (execute m nr cs exec)) = attempts (snd (execute m nr' cs exec))"
  by (metis attempts_filter_skip execute_classifier)

lemma execute_all_retryable_trace:
  "filter (\<lambda>e. \<not> is_skip_log e) (snd (execute m nr cs exec)) = snd (execute m (\<lambda>_. True) cs exec)"
proof -
  have "\<forall>e \<in> set (snd (execute m (\<lambda>_. True) cs exec)). \<not> is_skip_log e"
    using failover_loop_all_retryable_no_skip[of "[]" exec cs "maxAttempts m (length cs)" 0 None]
    by (simp add: execute_def)
  then have "filter (\<lambda>e. \<not> is_skip_log e) (snd (execute m (\<lambda>_. True) cs exec))
      = snd (execute m (\<lambda>_. True) cs exec)"
    by (simp add: filter_id_conv)
  then show ?thesis using execute_classifier[of m nr cs exec "\<lambda>_. True"] by simp
qed

lemma execute_attempt_count:
  assumes "cs \<noteq> []" and "0 \<le> m"
    and "\<And>j. j < length cs \<Longrightarrow> attempt_fails exec cs j"
  shows "int (length (attempts (snd (execute m nr cs exec)))) =
           (if m = 0 then int (length cs) else min (m + 1) (int (length cs)))"
proof -
  have b: "1 \<le> maxAttempts m (length cs)" "maxAttempts m (length cs) \<le> int (length cs)"
    using assms(1,2) maxAttempts_bounds[of m "length cs"] by simp_all
  have "attempts (snd (execute m nr cs exec)) = take (nat (maxAttempts m (length cs))) cs"
    by (rule execute_all_fail(2)[OF assms(1,2)]) (use assms(3) b in simp)
  then show ?thesis using b by (simp add: maxAttempts_def)
qed

lemma execute_advances:
  assumes "int i + 1 < maxAttempts m (length cs)" and "Suc i < length cs"
    and "\<And>j. j \<le> i \<Longrightarrow> attempt_fails exec cs j"
  shows "Suc i < length (attempts (snd (execute m nr cs exec)))
         \<and> attempts (snd (execute m nr cs exec)) ! Suc i = cs ! Suc i"
proof (cases "\<exists>k. int k < maxAttempts m (length cs) \<and> k < length cs \<and> \<not> attempt_fails exec cs k")
  case True
  define k where "k = (LEAST k. int k < maxAttempts m (length cs) \<and> k < length cs \<and> \<not> attempt_fails exec cs k)"
  have kp: "int k < maxAttempts m (length cs) \<and> k < length cs \<and> \<not> attempt_fails exec cs k"
    unfolding k_def using True by (rule LeastI_ex)
  have kmin: "\<And>j. j < k \<Longrightarrow> attempt_fails exec cs j"
  proof -
    fix j assume jk: "j < k"
    then have "\<not> (int j < maxAttempts m (length cs) \<and> j < length cs \<and> \<not> attempt_fails exec cs j)"
      unfolding k_def by (rule not_less_Least)
    with jk kp show "attempt_fails exec cs j" by auto
  qed
  have "i < k" using kp assms(3)[of k] by (meson not_le_imp_less)
  from kp obtain r where r: "exec k (cs ! k) = Returned r" "no_error r"
    by (auto simp: attempt_fails_def split: outcome.splits)
  have "attempts (snd (execute m nr cs exec)) = take (Suc k) cs"
    using execute_first_success(2)[of k m cs exec r nr] kp kmin r by simp
  then show ?thesis using \<open>i < k\<close> kp assms(2) by simp
next
  case False
  have b: "maxAttempts m (length cs) \<le> int (length cs)" using assms(1,2)
    by (auto simp add: maxAttempts_def split: if_splits)
  have "attempts (snd (execute m nr cs exec)) = attempts [] @ map ((!) cs) [0..<nat (maxAttempts m (length cs))]"
  proof -
    have "fst (failover_loop nr exec cs (maxAttempts m (length cs)) 0 None []) =
      exhausted (if int 0 < maxAttempts m (length cs)
                 then Some (attempt_error exec cs (nat (maxAttempts m (length cs)) - 1)) else None)
    \<and> attempts (snd (failover_loop nr exec cs (maxAttempts m (length cs)) 0 None [])) =
      attempts [] @ map ((!) cs) [0..<nat (maxAttempts m (length cs))]"
      by (rule failover_loop_all_fail) (use False b in auto)
    then show ?thesis using assms(2) by (auto simp add: execute_def)
  qed
  then have "attempts (snd (execute m nr cs exec)) = take (nat (maxAttempts m (length cs))) cs"
    using b by (simp add: map_nth_upt_take)
  then show ?thesis using assms(1,2) b by simp
qed


lemma maxAttempts_le_length: "maxAttempts m n \<le> int n"
  by (simp add: maxAttempts_def)

lemma failover_loop_attempts_bound:
  "length (attempts (snd (failover_loop nr exec cs maxA i le tr)))
     \<le> length (attempts tr) + (nat maxA - i)"
proof (induction nr exec cs maxA i le tr rule: failover_loop.induct)
  case (1 nr exec cs maxA i le tr)
  show ?case
  proof (cases "int i < maxA")
    case False
    then show ?thesis by (simp add: failover_loop_done)
  next
    case True
    then have pos: "Suc (nat maxA - (i + 1)) = nat maxA - i" by linarith
    show ?thesis
    proof (cases "exec i (cs ! i)")
      case (Returned r)
      show ?thesis
      proof (cases "no_error r")
        case ok: True
        then show ?thesis using True Returned pos by (simp add: failover_loop_success)
      next
        case False
        show ?thesis
          using "1.IH"(1)[OF True refl Returned False] True Returned False pos
          by (simp add: failover_loop.simps[of nr exec cs maxA i] Let_def)
      qed
    next
      case (Thrown msg)
      show ?thesis
        using "1.IH"(2)[OF True refl Thrown] True Thrown pos
        by (simp add: failover_loop.simps[of nr exec cs maxA i] Let_def)
    qed
  qed
qed

lemma execute_attempts_bound:
  "int (length (attempts (snd (execute m nr cs exec)))) \<le> max 0 (maxAttempts m (length cs))"
  using failover_loop_attempts_bound[of nr exec cs "maxAttempts m (length cs)" 0 None "[]"]
  by (auto simp add: execute_def)

text \<open>
  One retry is allowed and three candidates are given. The first fails with an error
  the classifier calls not retryable (only \<open>INVALID_MODEL\<close> is), the second with
  \<open>Timeout\<close>, the third would succeed: the executor stops after the second and never
  tries the third, so the skipped first candidate has used up one of the two attempts.
\<close>

theorem non_retryable_skip_is_counted:
  "attempt_error skip_then_timeout [''a'', ''b'', ''c''] 0 = ''INVALID_MODEL''
   \<and> skip_then_timeout 2 ''c''
       = Returned \<lparr>error = None, code = None, retryable = None, rest = [(''text'', JStr ''ok'')]\<rparr>
   \<and> attempts (snd (execute 1 (\<lambda>e. e \<noteq> ''INVALID_MODEL'') [''a'', ''b'', ''c'']
                      skip_then_timeout)) = [''a'', ''b'']
   \<and> fst (execute 1 (\<lambda>e. e \<noteq> ''INVALID_MODEL'') [''a'', ''b'', ''c''] skip_then_timeout)
       = \<lparr>error = Some (msg_all_candidates_failed @ ''Timeout''),
          code = Some ''FAILOVER_EXHAUSTED'', retryable = Some False, rest = []\<rparr>"
proof -
  have f: "\<And>j. int j < maxAttempts 1 (length [''a'', ''b'', ''c'']) \<Longrightarrow>
      attempt_fails skip_then_timeout [''a'', ''b'', ''c''] j"
  proof -
    fix j assume "int j < maxAttempts 1 (length [''a'', ''b'', ''c''])"
    then have "j = 0 \<or> j = 1" by (auto simp add: maxAttempts_def)
    then show "attempt_fails skip_then_timeout [''a'', ''b'', ''c''] j"
      by (auto simp add: attempt_fails_def skip_then_timeout_def no_error_def error_result_def)
  qed
  have a: "attempts (snd (execute 1 (\<lambda>e. e \<noteq> ''INVALID_MODEL'') [''a'', ''b'', ''c'']
                      skip_then_timeout)) = take (nat (maxAttempts 1 (length [''a'', ''b'', ''c''])))
                      [''a'', ''b'', ''c'']"
    by (rule execute_all_fail(2)) (use f in simp_all)
  have r: "fst (execute 1 (\<lambda>e. e \<noteq> ''INVALID_MODEL'') [''a'', ''b'', ''c''] skip_then_timeout)
     = exhausted (Some (attempt_error skip_then_timeout [''a'', ''b'', ''c'']
         (nat (maxAttempts 1 (length [''a'', ''b'', ''c''])) - 1)))"
    by (rule execute_all_fail(1)) (use f in simp_all)
  show ?thesis
    using a r
    by (simp add: maxAttempts_def attempt_error_def skip_then_timeout_def error_result_def
        exhausted_def interpolate_def)
qed

text \<open>
  Claim C3, as amended. A failure that the classifier calls not retryable counts against
  the attempts like any other failure. For every classifier, the result, the calls of
  the attempt function and the calls of \<open>onRetry\<close> are those of the run in which every
  error counts as retryable (only the debug line is added), and never more than
  \<open>min(maxRetries + 1, N)\<close> candidates, or \<open>N\<close> when \<open>maxRetries\<close> is 0, are
  attempted. After a failed attempt, retryable or not, the executor goes on to the next
  candidate as long as fewer than that many attempts have been made; and when every
  candidate fails the number of attempts is exactly that many.
\<close>

theorem non_retryable_counts_as_attempt:
  "fst (execute m nr cs exec) = fst (execute m (\<lambda>_. True) cs exec)
   \<and> filter (\<lambda>e. \<not> is_skip_log e) (snd (execute m nr cs exec)) = snd (execute m (\<lambda>_. True) cs exec)
   \<and> attempts (snd (execute m nr cs exec)) = attempts (snd (execute m (\<lambda>_. True) cs exec))
   \<and> int (length (attempts (snd (execute m nr cs exec)))) \<le> max 0 (maxAttempts m (length cs))
   \<and> (int i + 1 < maxAttempts m (length cs) \<and> (\<forall>j \<le> i. attempt_fails exec cs j)
        \<longrightarrow> Suc i < length (attempts (snd (execute m nr cs exec)))
            \<and> attempts (snd (execute m nr cs exec)) ! Suc i = cs ! Suc i)
   \<and> (cs \<noteq> [] \<and> 0 \<le> m \<and> (\<forall>j < length cs. attempt_fails exec cs j)
        \<longrightarrow> int (length (attempts (snd (execute m nr cs exec)))) =
            (if m = 0 then int (length cs) else min (m + 1) (int (length cs))))"
proof (intro conjI impI)
  show "fst (execute m nr cs exec) = fst (execute m (\<lambda>_. True) cs exec)"
    using execute_classifier by blast
  show "filter (\<lambda>e. \<not> is_skip_log e) (snd (execute m nr cs exec)) = snd (execute m (\<lambda>_. True) cs exec)"
    by (rule execute_all_retryable_trace)
  show "attempts (snd (execute m nr cs exec)) = attempts (snd (execute m (\<lambda>_. True) cs exec))"
    by (rule execute_attempts_classifier)
  show "int (length (attempts (snd (execute m nr cs exec)))) \<le> max 0 (maxAttempts m (length cs))"
    by (rule execute_attempts_bound)
next
  assume a: "int i + 1 < maxAttempts m (length cs) \<and> (\<forall>j \<le> i. attempt_fails exec cs j)"
  then have "Suc i < length cs" using maxAttempts_le_length[of m "length cs"] by linarith
  with a have "Suc i < length (attempts (snd (execute m nr cs exec)))
         \<and> attempts (snd (execute m nr cs exec)) ! Suc i = cs ! Suc i"
    using execute_advances[of i m cs exec nr] by simp
  then show "Suc i < length (attempts (snd (execute m nr cs exec)))"
    and "attempts (snd (execute m nr cs exec)) ! Suc i = cs ! Suc i" by simp_all
next
  assume "cs \<noteq> [] \<and> 0 \<le> m \<and> (\<forall>j < length cs. attempt_fails exec cs j)"
  then show "int (length (attempts (snd (execute m nr cs exec)))) =
            (if m = 0 then int (length cs) else min (m + 1) (int (length cs)))"
    using execute_attempt_count[of cs m exec nr] by simp
qed

theorem non_retryable_counts_as_attempt_witness:
  "Suc 0 < length (attempts (snd (execute 1 (\<lambda>_. False) [''a'', ''b'', ''c'']
       (\<lambda>i c. Returned (error_result ''INVALID_MODEL'')))))
   \<and> attempts (snd (execute 1 (\<lambda>_. False) [''a'', ''b'', ''c'']
       (\<lambda>i c. Returned (error_result ''INVALID_MODEL'')))) ! Suc 0 = ''b''
   \<and> int (length (attempts (snd (execute 1 (\<lambda>_. False) [''a'', ''b'', ''c'']
       (\<lambda>i c. Returned (error_result ''INVALID_MODEL'')))))) = 2"
  using non_retryable_counts_as_attempt
    [of 1 "\<lambda>_. False" "[''a'', ''b'', ''c'']" "\<lambda>i c. Returned (error_result ''INVALID_MODEL'')" 0]
  by (auto simp add: maxAttempts_def attempt_fails_def no_error_def error_result_def)

subsection \<open>The failover loop of a merge Worker\<close>

lemma executeAdapter_outcome:
  "fst (executeAdapter reg w calls t m) = candidate_outcome reg (length calls) (t, m)"
  by (simp add: executeAdapter_def executeAdapter_begin_def candidate_outcome_def split: option.splits)

lemma executeAdapter_worker:
  "fst (snd (executeAdapter reg w calls t m)) = w"
  by (simp add: executeAdapter_def executeAdapter_begin_def executeAdapter_finally_def split: option.splits)

lemma executeAdapter_calls:
  "snd (snd (executeAdapter reg w calls t m)) =
     calls @ (if getAdapter reg t = None then [] else [(t, m)])"
  by (simp add: executeAdapter_def executeAdapter_begin_def split: option.splits)

lemma executeAdapter_eq:
  "executeAdapter reg w calls t m =
     (candidate_outcome reg (length calls) (t, m), w,
      calls @ (if getAdapter reg t = None then [] else [(t, m)]))"
  by (metis executeAdapter_outcome executeAdapter_worker executeAdapter_calls prod.collapse)

lemma merge_loop_done:
  "\<not> int i < maxA \<Longrightarrow> merge_loop reg cs maxA i le w calls =
     (Returned (error_result (msg_all_adapters_unusable @ interpolate le)), w, calls)"
  by (simp add: merge_loop.simps[of reg cs maxA i])

lemma merge_loop_step:
  "int i < maxA \<Longrightarrow> merge_loop reg cs maxA i le w calls =
     (case candidate_outcome reg (length calls) (cs ! i) of
        Thrown msg \<Rightarrow> (Thrown msg, w, calls @ (if getAdapter reg (fst (cs ! i)) = None then [] else [cs ! i]))
      | Returned r \<Rightarrow>
          if no_error r
          then (Returned r, w, calls @ (if getAdapter reg (fst (cs ! i)) = None then [] else [cs ! i]))
          else merge_loop reg cs maxA (i + 1) (error r) w
                 (calls @ (if getAdapter reg (fst (cs ! i)) = None then [] else [cs ! i])))"
  by (auto simp add: merge_loop.simps[of reg cs maxA i] executeAdapter_eq split: outcome.splits)

lemma merge_loop_worker:
  "fst (snd (merge_loop reg cs maxA i le w calls)) = w"
proof (induction "nat (maxA - int i)" arbitrary: i le calls)
  case 0
  then show ?case by (simp add: merge_loop_done)
next
  case (Suc n)
  then have lt: "int i < maxA" by linarith
  have n: "n = nat (maxA - int (i + 1))" using Suc.hyps(2) by linarith
  show ?case
    using Suc.hyps(1)[OF n] lt
    by (simp add: merge_loop_step split: outcome.splits)
qed

lemma merge_loop_calls:
  "maxA \<le> int (length cs) \<Longrightarrow>
   \<exists>new. snd (snd (merge_loop reg cs maxA i le w calls)) = calls @ new
        \<and> set new \<subseteq> set cs \<and> int (length new) \<le> max 0 (maxA - int i)"
proof (induction "nat (maxA - int i)" arbitrary: i le calls)
  case 0
  then show ?case by (simp add: merge_loop_done)
next
  case (Suc n)
  then have lt: "int i < maxA" by linarith
  then have mem: "cs ! i \<in> set cs" using Suc.prems by simp
  have n: "n = nat (maxA - int (i + 1))" using Suc.hyps(2) by linarith
  let ?c1 = "calls @ (if getAdapter reg (fst (cs ! i)) = None then [] else [cs ! i])"
  show ?case
  proof (cases "candidate_outcome reg (length calls) (cs ! i)")
    case (Thrown msg)
    then have "snd (snd (merge_loop reg cs maxA i le w calls)) = ?c1"
      using lt by (simp add: merge_loop_step)
    then show ?thesis using mem lt by auto
  next
    case (Returned r)
    show ?thesis
    proof (cases "no_error r")
      case True
      then have "snd (snd (merge_loop reg cs maxA i le w calls)) = ?c1"
        using lt Returned by (simp add: merge_loop_step)
      then show ?thesis using mem lt by auto
    next
      case False
      then have eq: "merge_loop reg cs maxA i le w calls = merge_loop reg cs maxA (i + 1) (error r) w ?c1"
        using lt Returned by (simp add: merge_loop_step)
      from Suc.hyps(1)[OF n Suc.prems, of "error r" ?c1]
      obtain new where new: "snd (snd (merge_loop reg cs maxA (i + 1) (error r) w ?c1)) = ?c1 @ new"
        "set new \<subseteq> set cs" "int (length new) \<le> max 0 (maxA - int (i + 1))" by blast
      show ?thesis
        by (rule exI[of _ "(if getAdapter reg (fst (cs ! i)) = None then [] else [cs ! i]) @ new"])
           (use eq new mem lt in auto)
    qed
  qed
qed

lemma calls_before_0 [simp]: "calls_before reg cs calls 0 = calls"
  by (simp add: calls_before_def)

lemma calls_before_Suc:
  "i < length cs \<Longrightarrow>
   calls_before reg cs calls (Suc i) =
     calls_before reg cs calls i @ (if getAdapter reg (fst (cs ! i)) = None then [] else [cs ! i])"
  by (simp add: calls_before_def take_Suc_conv_app_nth)

lemma merge_loop_run_failure:
  assumes "int i < maxA" and "maxA \<le> int (length cs)" and "returns_error reg cs calls i"
  shows "merge_loop reg cs maxA i le w (calls_before reg cs calls i) =
         merge_loop reg cs maxA (i + 1) (Some (returned_error reg cs calls i)) w
           (calls_before reg cs calls (i + 1))"
proof -
  from assms(3) obtain r where r: "merge_attempt reg cs calls i = Returned r" "\<not> no_error r"
    by (auto simp add: returns_error_def split: outcome.splits)
  then obtain msg where msg: "error r = Some msg"
    by (auto simp add: no_error_def split: option.splits)
  have il: "i < length cs" using assms(1,2) by linarith
  show ?thesis
    using assms(1) r msg il
    by (simp add: merge_loop_step[of i maxA] merge_attempt_def returned_error_def calls_before_Suc)
qed

lemma merge_loop_run_all_fail:
  "int i < maxA \<Longrightarrow> maxA \<le> int (length cs) \<Longrightarrow>
   (\<And>j. i \<le> j \<Longrightarrow> int j < maxA \<Longrightarrow> returns_error reg cs calls j) \<Longrightarrow>
   fst (merge_loop reg cs maxA i le w (calls_before reg cs calls i)) =
     Returned (error_result
       (msg_all_adapters_unusable @ returned_error reg cs calls (nat maxA - 1)))"
proof (induction "nat (maxA - int i)" arbitrary: i le)
  case 0
  then show ?case by simp
next
  case (Suc n)
  have step: "merge_loop reg cs maxA i le w (calls_before reg cs calls i) =
         merge_loop reg cs maxA (i + 1) (Some (returned_error reg cs calls i)) w
           (calls_before reg cs calls (i + 1))"
    by (rule merge_loop_run_failure[OF Suc.prems(1,2)]) (use Suc.prems in simp)
  show ?case
  proof (cases "int (i + 1) < maxA")
    case True
    have n: "n = nat (maxA - int (i + 1))" using Suc.hyps(2) by linarith
    from Suc.hyps(1)[OF n True Suc.prems(2)] Suc.prems(3)
    show ?thesis using step by simp
  next
    case False
    then have "nat maxA - 1 = i" using Suc.prems(1) by linarith
    then show ?thesis using step False by (simp add: merge_loop_done interpolate_def)
  qed
qed

lemma merge_loop_run_first_success:
  "i \<le> k \<Longrightarrow> int k < maxA \<Longrightarrow> maxA \<le> int (length cs) \<Longrightarrow>
   (\<And>j. i \<le> j \<Longrightarrow> j < k \<Longrightarrow> returns_error reg cs calls j) \<Longrightarrow>
   merge_attempt reg cs calls k = Returned r \<Longrightarrow> no_error r \<Longrightarrow>
   fst (merge_loop reg cs maxA i le w (calls_before reg cs calls i)) = Returned r"
proof (induction "k - i" arbitrary: i le)
  case 0
  then have "i = k" by simp
  then show ?case using "0.prems"(2,5,6)
    by (simp add: merge_loop_step[of k maxA] merge_attempt_def)
next
  case (Suc n)
  then have lt: "i < k" by simp
  then have ltA: "int i < maxA" using Suc.prems(2) by simp
  have step: "merge_loop reg cs maxA i le w (calls_before reg cs calls i) =
         merge_loop reg cs maxA (i + 1) (Some (returned_error reg cs calls i)) w
           (calls_before reg cs calls (i + 1))"
    by (rule merge_loop_run_failure[OF ltA Suc.prems(3)]) (use Suc.prems(4) lt in simp)
  have n: "n = k - (i + 1)" using Suc.hyps(2) by simp
  from Suc.hyps(1)[OF n _ Suc.prems(2,3) _ Suc.prems(5,6)] lt Suc.prems(4)
  show ?case using step by simp
qed

lemma merge_loop_run_throw:
  "i \<le> k \<Longrightarrow> int k < maxA \<Longrightarrow> maxA \<le> int (length cs) \<Longrightarrow>
   (\<And>j. i \<le> j \<Longrightarrow> j < k \<Longrightarrow> returns_error reg cs calls j) \<Longrightarrow>
   merge_attempt reg cs calls k = Thrown msg \<Longrightarrow>
   fst (merge_loop reg cs maxA i le w (calls_before reg cs calls i)) = Thrown msg"
proof (induction "k - i" arbitrary: i le)
  case 0
  then have "i = k" by simp
  then show ?case using "0.prems"(2,5)
    by (simp add: merge_loop_step[of k maxA] merge_attempt_def)
next
  case (Suc n)
  then have lt: "i < k" by simp
  then have ltA: "int i < maxA" using Suc.prems(2) by simp
  have step: "merge_loop reg cs maxA i le w (calls_before reg cs calls i) =
         merge_loop reg cs maxA (i + 1) (Some (returned_error reg cs calls i)) w
           (calls_before reg cs calls (i + 1))"
    by (rule merge_loop_run_failure[OF ltA Suc.prems(3)]) (use Suc.prems(4) lt in simp)
  have n: "n = k - (i + 1)" using Suc.hyps(2) by simp
  from Suc.hyps(1)[OF n _ Suc.prems(2,3) _ Suc.prems(5)] lt Suc.prems(4)
  show ?case using step by simp
qed

subsection \<open>Proxy resolution\<close>

lemma resolveProxyConfig_absent:
  "resolveProxyConfig g None =
     (case g of None \<Rightarrow> None | Some gp \<Rightarrow> if enable gp = JBool True then Some gp else None)"
  by (simp add: resolveProxyConfig_def split: option.splits)

text \<open>
  Claim C10. An instance proxy block whose \<open>enable\<close> field is neither exactly
  \<open>true\<close> nor exactly \<open>false\<close> resolves as an absent block does: to the global
  proxy when that one is enabled, to a direct connection (\<open>None\<close>) otherwise. An
  explicit \<open>enable: false\<close> gives a direct connection and is the only way an instance block
  turns an applicable global proxy off; an explicit \<open>enable: true\<close> selects the instance
  block and is the only way the instance block (when it is not also the global one) is
  the result.
\<close>

theorem resolveProxyConfig_enable_tristate:
  "(enable p \<noteq> JBool True \<and> enable p \<noteq> JBool False \<longrightarrow>
      resolveProxyConfig g (Some p) = resolveProxyConfig g None)
   \<and> resolveProxyConfig g None =
       (case g of None \<Rightarrow> None
        | Some gp \<Rightarrow> if enable gp = JBool True then Some gp else None)
   \<and> (enable p = JBool False \<longrightarrow> resolveProxyConfig g (Some p) = None)
   \<and> (resolveProxyConfig g (Some p) = None \<and> resolveProxyConfig g None \<noteq> None \<longrightarrow>
        enable p = JBool False)
   \<and> (enable p = JBool True \<longrightarrow> resolveProxyConfig g (Some p) = Some p)
   \<and> (resolveProxyConfig g (Some p) = Some p \<and> g \<noteq> Some p \<longrightarrow> enable p = JBool True)"
  by (auto simp add: resolveProxyConfig_def split: option.splits if_splits)

theorem resolveProxyConfig_enable_tristate_witness:
  "resolveProxyConfig
     (Some \<lparr>enable = JBool True, proxy_type = ''http'', host = ''10.0.0.1'', port = 8080,
            user = None, passwd = None\<rparr>)
     (Some \<lparr>enable = JUndefined, proxy_type = ''socks5'', host = ''10.0.0.2'', port = 1080,
            user = None, passwd = None\<rparr>)
   = Some \<lparr>enable = JBool True, proxy_type = ''http'', host = ''10.0.0.1'', port = 8080,
            user = None, passwd = None\<rparr>
   \<and> resolveProxyConfig
     (Some \<lparr>enable = JBool True, proxy_type = ''http'', host = ''10.0.0.1'', port = 8080,
            user = None, passwd = None\<rparr>)
     (Some \<lparr>enable = JBool False, proxy_type = ''socks5'', host = ''10.0.0.2'', port = 1080,
            user = None, passwd = None\<rparr>)
   = None"
  using resolveProxyConfig_enable_tristate
    [of "\<lparr>enable = JUndefined, proxy_type = ''socks5'', host = ''10.0.0.2'', port = 1080,
            user = None, passwd = None\<rparr>"
        "Some \<lparr>enable = JBool True, proxy_type = ''http'', host = ''10.0.0.1'', port = 8080,
            user = None, passwd = None\<rparr>"]
    resolveProxyConfig_enable_tristate
    [of "\<lparr>enable = JBool False, proxy_type = ''socks5'', host = ''10.0.0.2'', port = 1080,
            user = None, passwd = None\<rparr>"
        "Some \<lparr>enable = JBool True, proxy_type = ''http'', host = ''10.0.0.1'', port = 8080,
            user = None, passwd = None\<rparr>"]
  by simp

subsection \<open>Writes after the response has ended\<close>

text \<open>
  Claim C7. Each writing operation of the transport (the JSON send, the SSE data frame,
  the SSE \<open>[DONE]\<close> terminator, and the heartbeat in any mode) returns the response
  as it was when its writable side has already ended.
\<close>

theorem writes_after_end_are_noops:
  "writableEnded res \<Longrightarrow>
     sendJson stringify res status payload = res
   \<and> sendSse stringify res payload = res
   \<and> sendSseDone res = res
   \<and> sendHeartbeat stringify num_to_string now res mode modelName = res"
  by (simp add: sendJson_def sendSse_def sendSseDone_def sendHeartbeat_def)

theorem writes_after_end_are_noops_witness:
  "sendJson (\<lambda>_. ''{}'') \<lparr>writableEnded = True, head = None, body = [''x'']\<rparr> 200 JNull
     = \<lparr>writableEnded = True, head = None, body = [''x'']\<rparr>
   \<and> sendSse (\<lambda>_. ''{}'') \<lparr>writableEnded = True, head = None, body = [''x'']\<rparr> JNull
     = \<lparr>writableEnded = True, head = None, body = [''x'']\<rparr>
   \<and> sendSseDone \<lparr>writableEnded = True, head = None, body = [''x'']\<rparr>
     = \<lparr>writableEnded = True, head = None, body = [''x'']\<rparr>
   \<and> sendHeartbeat (\<lambda>_. ''{}'') (\<lambda>_. ''0'') 0
       \<lparr>writableEnded = True, head = None, body = [''x'']\<rparr> ''comment'' None
     = \<lparr>writableEnded = True, head = None, body = [''x'']\<rparr>
   \<and> sendHeartbeat (\<lambda>_. ''{}'') (\<lambda>_. ''0'') 0
       \<lparr>writableEnded = True, head = None, body = [''x'']\<rparr> ''content'' None
     = \<lparr>writableEnded = True, head = None, body = [''x'']\<rparr>"
  using writes_after_end_are_noops
    [of "\<lparr>writableEnded = True, head = None, body = [''x'']\<rparr>"
        "\<lambda>_. ''{}''" 200 JNull "\<lambda>_. ''0''" 0 "''comment''" None]
    writes_after_end_are_noops
    [of "\<lparr>writableEnded = True, head = None, body = [''x'']\<rparr>"
        "\<lambda>_. ''{}''" 200 JNull "\<lambda>_. ''0''" 0 "''content''" None]
  by simp

subsection \<open>Initialisation\<close>

text \<open>
  Claim C9. \<open>init\<close> on a Worker whose \<open>initialized\<close> flag is set returns at once: no
  directory is made, no browser launched, no tab opened, no handler installed, no
  navigation started, and every field of the Worker is as before.
\<close>

theorem init_idempotent:
  "initialized w \<Longrightarrow> init reg env w sharedBrowser = (Completed, w, [])"
  by (simp add: init_def)

theorem init_idempotent_witness:
  "init example_registry example_env (example_worker\<lparr>initialized := True\<rparr>) None
     = (Completed, example_worker\<lparr>initialized := True\<rparr>, [])
   \<and> init example_registry example_env (example_worker\<lparr>initialized := True\<rparr>) (Some 7)
     = (Completed, example_worker\<lparr>initialized := True\<rparr>, [])"
  using init_idempotent[of "example_worker\<lparr>initialized := True\<rparr>" example_registry example_env None]
        init_idempotent[of "example_worker\<lparr>initialized := True\<rparr>" example_registry example_env "Some 7"]
  by simp

subsection \<open>Image policy of a merge Worker\<close>

lemma fold_collect_policies:
  "fold (\<lambda>t policies. if supportsModel reg t k then insert (registry_getImagePolicy reg t k) policies else policies) ts acc
   = acc \<union> {registry_getImagePolicy reg t k | t. t \<in> set ts \<and> supportsModel reg t k}"
  by (induction ts arbitrary: acc) auto

lemma collect_policies_eq:
  "collect_policies reg w k =
     {registry_getImagePolicy reg t k | t. t \<in> set (mergeTypes w) \<and> supportsModel reg t k}"
  by (simp add: collect_policies_def fold_collect_policies)

text \<open>
  The example Worker and a model no member supports: the answer is \<open>optional\<close>, not
  \<open>forbidden\<close>.
\<close>

theorem merge_image_policy_counterexample:
  "type example_worker = ''merge''
   \<and> \<not> includes_slash ''zzz''
   \<and> \<not> list_ex (\<lambda>t. supportsModel example_registry t ''zzz'') (mergeTypes example_worker)
   \<and> getImagePolicy example_registry example_worker ''zzz'' = ''optional''
   \<and> getImagePolicy example_registry example_worker ''zzz'' \<noteq> ''forbidden''"
  by (simp add: getImagePolicy_def collect_policies_def example_worker_def example_worker_config_def new_worker_def
      example_registry_def includes_slash_def)

text \<open>
  Claim C5, as amended. For a merge Worker and an unqualified model key,
  \<open>getImagePolicy\<close> answers \<open>optional\<close> if a supporting member reports \<open>optional\<close>;
  otherwise \<open>required\<close> if a supporting member reports \<open>required\<close>; otherwise
  \<open>forbidden\<close> if a supporting member reports \<open>forbidden\<close>; and \<open>optional\<close> in every
  remaining case, which includes the case that no member supports the model.
\<close>

theorem merge_image_policy:
  assumes "type w = ''merge''" and "\<not> includes_slash modelKey"
  shows "getImagePolicy reg w modelKey =
     (if \<exists>t \<in> set (mergeTypes w). supportsModel reg t modelKey
            \<and> registry_getImagePolicy reg t modelKey = ''optional'' then ''optional''
      else if \<exists>t \<in> set (mergeTypes w). supportsModel reg t modelKey
            \<and> registry_getImagePolicy reg t modelKey = ''required'' then ''required''
      else if \<exists>t \<in> set (mergeTypes w). supportsModel reg t modelKey
            \<and> registry_getImagePolicy reg t modelKey = ''forbidden'' then ''forbidden''
      else ''optional'')"
proof -
  have mem: "\<And>p. p \<in> collect_policies reg w modelKey \<longleftrightarrow>
      (\<exists>t \<in> set (mergeTypes w). supportsModel reg t modelKey \<and> registry_getImagePolicy reg t modelKey = p)"
    by (auto simp add: collect_policies_eq)
  show ?thesis
    using assms by (simp add: getImagePolicy_def Let_def mem)
qed

theorem merge_image_policy_witness:
  "getImagePolicy example_registry example_worker ''m'' = ''required''
   \<and> getImagePolicy example_registry example_worker ''zzz'' = ''optional''"
  using merge_image_policy[of example_worker "''m''" example_registry]
        merge_image_policy[of example_worker "''zzz''" example_registry]
  by (simp add: example_worker_def example_worker_config_def new_worker_def example_registry_def includes_slash_def)

subsection \<open>Splitting a model key\<close>

lemma split_on_no_sep: "c \<notin> set s \<Longrightarrow> split_on c s = [s]"
  by (induction s) auto

lemma split_on_sep: "c \<notin> set t \<Longrightarrow> split_on c (t @ c # s) = t # split_on c s"
  by (induction t) auto

lemma qualified_key_parts:
  assumes "CHR ''/'' \<notin> set t" and "CHR ''/'' \<notin> set mid"
  shows "includes_slash (t @ ''/'' @ mid)"
    and "specifiedType (t @ ''/'' @ mid) = t"
    and "actualModel (t @ ''/'' @ mid) = mid"
  using assms
  by (simp_all add: includes_slash_def specifiedType_def actualModel_def split_limit_def
      split_on_sep split_on_no_sep)

lemma split_on_nonempty: "split_on c s \<noteq> []"
  by (induction s) (auto split: list.splits)

lemma split_on_two: "c \<in> set s \<Longrightarrow> 2 \<le> length (split_on c s)"
proof (induction s)
  case Nil
  then show ?case by simp
next
  case (Cons x xs)
  show ?case
  proof (cases "x = c")
    case True
    then show ?thesis using split_on_nonempty[of c xs]
      by (cases "split_on c xs") auto
  next
    case False
    with Cons show ?thesis by (auto split: list.splits)
  qed
qed

subsection \<open>The busy counter\<close>

lemma generateWithFailover_worker:
  "fst (snd (generateWithFailover reg cfg w calls modelId)) = w"
  by (simp add: generateWithFailover_def Let_def merge_loop_worker)

lemma generate_worker:
  "fst (snd (generate reg cfg w calls modelId)) = w"
  by (simp add: generate_def Let_def generateWithFailover_worker executeAdapter_worker
      split: option.splits)

lemma generate_seq_worker:
  "fst (generate_seq reg cfg modelIds (w, calls)) = w"
proof (induction modelIds arbitrary: calls)
  case Nil
  then show ?case by simp
next
  case (Cons m ms)
  obtain out w1 calls1 where g: "generate reg cfg w calls m = (out, w1, calls1)"
    by (cases "generate reg cfg w calls m") auto
  then have "w1 = w" using generate_worker[of reg cfg w calls m] by simp
  then show ?case using g Cons.IH by simp
qed

lemma worker_step_invariant:
  "worker_step reg ev (w, k) = Some (w1, k1) \<Longrightarrow>
   busyCount w1 - int k1 = busyCount w - int k"
  by (auto simp add: worker_step_def executeAdapter_begin_def executeAdapter_finally_def
      split: worker_event.splits option.splits if_splits)

lemma worker_run_invariant:
  "worker_run reg evs (w, k) = Some (w1, k1) \<Longrightarrow>
   busyCount w1 - int k1 = busyCount w - int k"
proof (induction evs arbitrary: w k)
  case Nil
  then show ?case by simp
next
  case (Cons ev evs)
  then obtain w2 k2 where s: "worker_step reg ev (w, k) = Some (w2, k2)"
    and r: "worker_run reg evs (w2, k2) = Some (w1, k1)"
    by (auto split: option.splits)
  from Cons.IH[OF r] worker_step_invariant[OF s] show ?case by simp
qed

text \<open>
  Claim C1. Starting from a new Worker, after any sequence of calls that enter
  \<open>_executeAdapter\<close> and of adapter promises that settle, the busy counter equals the
  number of adapter calls suspended in the Worker, so it is never negative. The
  counter goes up by one exactly when a call finds its adapter and starts it, stays when
  there is no adapter, and goes down by one when the adapter's promise settles, whatever
  the outcome (a result, an error result or an exception). So a call of
  \<open>_executeAdapter\<close> or of \<open>generate\<close> that has run to its end, and any sequence of
  such calls, leaves the counter at the value it had before.
\<close>

theorem busyCount_counts_suspended_calls:
  "(worker_run reg evs (new_worker workerConfig, 0) = Some (w1, k) \<longrightarrow>
      busyCount w1 = int k \<and> 0 \<le> busyCount w1)
   \<and> (getAdapter reg t = Some a \<longrightarrow>
        worker_step reg (Enter t) (w, n) = Some (w\<lparr>busyCount := busyCount w + 1\<rparr>, n + 1))
   \<and> (getAdapter reg t = None \<longrightarrow> worker_step reg (Enter t) (w, n) = Some (w, n))
   \<and> (0 < n \<longrightarrow>
        worker_step reg (Leave out) (w, n) = Some (w\<lparr>busyCount := busyCount w - 1\<rparr>, n - 1))
   \<and> busyCount (fst (snd (executeAdapter reg w calls t modelId))) = busyCount w
   \<and> busyCount (fst (snd (generate reg failoverConfig w calls modelId))) = busyCount w
   \<and> busyCount (fst (generate_seq reg failoverConfig modelIds (w, calls))) = busyCount w"
proof (intro conjI impI)
  assume r: "worker_run reg evs (new_worker workerConfig, 0) = Some (w1, k)"
  have "busyCount w1 - int k = busyCount (new_worker workerConfig) - int 0"
    by (rule worker_run_invariant[OF r])
  then show "busyCount w1 = int k" by (simp add: new_worker_def)
  then show "0 \<le> busyCount w1" by simp
next
  assume "getAdapter reg t = Some a"
  then show "worker_step reg (Enter t) (w, n) = Some (w\<lparr>busyCount := busyCount w + 1\<rparr>, n + 1)"
    by (simp add: worker_step_def executeAdapter_begin_def)
next
  assume "getAdapter reg t = None"
  then show "worker_step reg (Enter t) (w, n) = Some (w, n)"
    by (simp add: worker_step_def executeAdapter_begin_def)
next
  assume "0 < n"
  then show "worker_step reg (Leave out) (w, n) = Some (w\<lparr>busyCount := busyCount w - 1\<rparr>, n - 1)"
    by (simp add: worker_step_def executeAdapter_finally_def)
next
  show "busyCount (fst (snd (executeAdapter reg w calls t modelId))) = busyCount w"
    by (simp add: executeAdapter_worker)
  show "busyCount (fst (snd (generate reg failoverConfig w calls modelId))) = busyCount w"
    by (simp add: generate_worker)
  show "busyCount (fst (generate_seq reg failoverConfig modelIds (w, calls))) = busyCount w"
    by (simp add: generate_seq_worker)
qed

theorem busyCount_counts_suspended_calls_witness:
  "worker_run example_registry
      [Enter ''a'', Enter ''b'', Leave (Thrown ''boom''), Enter ''zz'']
      (new_worker example_worker_config, 0)
     = Some ((new_worker example_worker_config)\<lparr>busyCount := 1\<rparr>, 1)
   \<and> worker_step example_registry (Enter ''a'') (new_worker example_worker_config, 0)
     = Some ((new_worker example_worker_config)\<lparr>busyCount := 1\<rparr>, 1)
   \<and> worker_step example_registry (Enter ''zz'') (new_worker example_worker_config, 0)
     = Some (new_worker example_worker_config, 0)
   \<and> worker_step example_registry (Leave (Returned (error_result ''Timeout'')))
        ((new_worker example_worker_config)\<lparr>busyCount := 1\<rparr>, 1)
     = Some (new_worker example_worker_config, 0)
   \<and> busyCount (fst (generate_seq example_registry \<lparr>fo_enabled = None, fo_maxRetries = None\<rparr>
        [''m'', ''a/m'', ''zzz''] (new_worker example_worker_config, []))) = 0"
  using busyCount_counts_suspended_calls
    [of example_registry "[Enter ''a'', Enter ''b'', Leave (Thrown ''boom''), Enter ''zz'']"
        example_worker_config "(new_worker example_worker_config)\<lparr>busyCount := 1\<rparr>" 1
        "''a''" "\<lambda>n m. Returned (error_result ''Timeout'')" "new_worker example_worker_config" 0
        "Returned (error_result ''Timeout'')" "[]" "''m''"
        "\<lparr>fo_enabled = None, fo_maxRetries = None\<rparr>" "[''m'', ''a/m'', ''zzz'']"]
    busyCount_counts_suspended_calls
    [of example_registry "[]" example_worker_config "new_worker example_worker_config" 0
        "''zz''" "\<lambda>n m. Returned (error_result ''Timeout'')" "new_worker example_worker_config" 0
        "Returned (error_result ''Timeout'')" "[]" "''m''"
        "\<lparr>fo_enabled = None, fo_maxRetries = None\<rparr>" "[]"]
    busyCount_counts_suspended_calls
    [of example_registry "[]" example_worker_config "new_worker example_worker_config" 0
        "''zz''" "\<lambda>n m. Returned (error_result ''Timeout'')"
        "(new_worker example_worker_config)\<lparr>busyCount := 1\<rparr>" 1
        "Returned (error_result ''Timeout'')" "[]" "''m''"
        "\<lparr>fo_enabled = None, fo_maxRetries = None\<rparr>" "[]"]
  by (simp add: worker_step_def executeAdapter_begin_def executeAdapter_finally_def
        example_registry_def new_worker_def example_worker_config_def)

subsection \<open>Number of attempts\<close>

lemma merge_maxRetries_nonzero: "merge_maxRetries cfg \<noteq> 0"
  by (simp add: merge_maxRetries_def split: option.splits)

lemma merge_maxRetries_zero: "merge_maxRetries \<lparr>fo_enabled = e, fo_maxRetries = Some 0\<rparr> = 2"
  by (simp add: merge_maxRetries_def)

lemma four_candidates:
  "getCandidateTypes failing_registry four_member_worker ''m'' =
     [(''a'', ''m''), (''b'', ''m''), (''c'', ''m''), (''d'', ''m'')]"
  by (simp add: getCandidateTypes_def failing_registry_def four_member_worker_def new_worker_def
      includes_slash_def)

lemma failing_outcome:
  "candidate_outcome failing_registry n c = Returned (error_result ''Timeout'')"
  by (simp add: candidate_outcome_def failing_registry_def)

lemma failing_getAdapter: "getAdapter failing_registry t \<noteq> None"
  by (simp add: failing_registry_def)

lemma failing_not_ok: "\<not> no_error (error_result ''Timeout'')"
  by (simp add: no_error_def error_result_def)

text \<open>
  Claim C2, at an input where the code departs from it. Four member types support the
  model and every adapter fails. With \<open>maxRetries: 0\<close> the merge Worker makes three
  attempts, not four: \<open>failoverConfig.maxRetries || 2\<close> turns the configured 0 into 2
  before the test \<open>maxRetries === 0\<close>. The executor of \<open>failover.js\<close>, which reads its
  option with \<open>??\<close>, tries all four candidates (see also \<open>execute_attempt_count\<close>
  for any list of candidates).
\<close>

theorem merge_failover_maxRetries_zero:
  "length (getCandidateTypes failing_registry four_member_worker ''m'') = 4
   \<and> snd (snd (generate failing_registry \<lparr>fo_enabled = Some True, fo_maxRetries = Some 0\<rparr>
                 four_member_worker [] ''m''))
       = [(''a'', ''m''), (''b'', ''m''), (''c'', ''m'')]
   \<and> attempts (snd (executeWithFailover 2 (\<lambda>_. True) [''a'', ''b'', ''c'', ''d'']
                 (\<lambda>i c. Returned (error_result ''Timeout'')) (Some 0)))
       = [''a'', ''b'', ''c'', ''d'']"
proof (intro conjI)
  show "length (getCandidateTypes failing_registry four_member_worker ''m'') = 4"
    by (simp add: four_candidates)
  have t: "type four_member_worker = ''merge''"
    by (simp add: four_member_worker_def new_worker_def)
  show "snd (snd (generate failing_registry \<lparr>fo_enabled = Some True, fo_maxRetries = Some 0\<rparr>
                 four_member_worker [] ''m''))
       = [(''a'', ''m''), (''b'', ''m''), (''c'', ''m'')]"
    by (simp add: generate_def generateWithFailover_def t four_candidates merge_maxRetries_zero
        maxAttempts_def merge_loop_step merge_loop_done failing_outcome failing_getAdapter
        failing_not_ok)
  show "attempts (snd (executeWithFailover 2 (\<lambda>_. True) [''a'', ''b'', ''c'', ''d'']
                 (\<lambda>i c. Returned (error_result ''Timeout'')) (Some 0)))
       = [''a'', ''b'', ''c'', ''d'']"
    using execute_all_fail(2)[of "[''a'', ''b'', ''c'', ''d'']" 0
        "\<lambda>i c. Returned (error_result ''Timeout'')" "\<lambda>_. True"]
    by (simp add: executeWithFailover_def option_maxRetries_def maxAttempts_def attempt_fails_def
        failing_not_ok)
qed

subsection \<open>The result of a failover\<close>

text \<open>
  Every adapter of the merge Worker fails: the result of \<open>generate\<close> is an error object
  with a message and no \<open>code\<close> field.
\<close>

theorem merge_failover_exhausted_has_no_code:
  "fst (generate failing_registry \<lparr>fo_enabled = Some True, fo_maxRetries = Some 2\<rparr>
          four_member_worker [] ''m'')
     = Returned \<lparr>error = Some (msg_all_adapters_unusable @ ''Timeout''), code = None,
                 retryable = None, rest = []\<rparr>"
proof -
  have t: "type four_member_worker = ''merge''"
    by (simp add: four_member_worker_def new_worker_def)
  have e: "error (error_result ''Timeout'') = Some ''Timeout''" by (simp add: error_result_def)
  show ?thesis
    by (simp add: generate_def generateWithFailover_def t four_candidates merge_maxRetries_def
        maxAttempts_def merge_loop_step merge_loop_done failing_outcome failing_getAdapter
        failing_not_ok e interpolate_def)
       (simp add: error_result_def)
qed

lemma generate_merge_failover:
  "type w = ''merge'' \<Longrightarrow> fo_enabled cfg \<noteq> Some False \<Longrightarrow> getCandidateTypes reg w modelId \<noteq> [] \<Longrightarrow>
   generate reg cfg w calls modelId =
     merge_loop reg (getCandidateTypes reg w modelId)
       (maxAttempts (merge_maxRetries cfg) (length (getCandidateTypes reg w modelId))) 0 None w calls"
  by (simp add: generate_def generateWithFailover_def Let_def)

lemma example_candidates:
  "getCandidateTypes example_registry example_worker ''m'' = [(''a'', ''m''), (''b'', ''m'')]"
  "getCandidateTypes example_registry example_worker ''a/m'' = [(''a'', ''m'')]"
proof -
  have k: "includes_slash ''a/m''" "specifiedType ''a/m'' = ''a''" "actualModel ''a/m'' = ''m''"
    using qualified_key_parts[of "''a''" "''m''"] by simp_all
  show "getCandidateTypes example_registry example_worker ''m'' = [(''a'', ''m''), (''b'', ''m'')]"
    by (simp add: getCandidateTypes_def example_registry_def example_worker_def
        example_worker_config_def new_worker_def includes_slash_def)
  show "getCandidateTypes example_registry example_worker ''a/m'' = [(''a'', ''m'')]"
    by (simp add: getCandidateTypes_def k example_registry_def example_worker_def
        example_worker_config_def new_worker_def)
qed

lemma flaky_candidates:
  "getCandidateTypes flaky_registry example_worker ''m'' = [(''a'', ''m''), (''b'', ''m'')]"
  by (simp add: getCandidateTypes_def flaky_registry_def example_worker_def
      example_worker_config_def new_worker_def includes_slash_def)

lemma flaky_attempts:
  "merge_attempt flaky_registry [(''a'', ''m''), (''b'', ''m'')] [] 0
     = Returned (error_result ''Timeout'')"
  "merge_attempt flaky_registry [(''a'', ''m''), (''b'', ''m'')] [] (Suc 0)
     = Returned \<lparr>error = None, code = None, retryable = None, rest = [(''text'', JStr ''b'')]\<rparr>"
  by (simp_all add: merge_attempt_def calls_before_def candidate_outcome_def flaky_registry_def)

lemma example_attempt:
  "merge_attempt example_registry [(''a'', ''m'')] [] 0 = Returned (error_result ''Timeout'')"
  by (simp add: merge_attempt_def calls_before_def candidate_outcome_def example_registry_def)

text \<open>
  Claim C4, as amended. In the executor of \<open>failover.js\<close>, when every attempted
  candidate fails the result has the code \<open>FAILOVER_EXHAUSTED\<close> and a message that
  ends with the error of the last attempt; when an attempted candidate succeeds, the
  result of the first such candidate is returned as it is. In the failover of a merge
  Worker, when every attempted adapter returns an error result the result is an error
  object without a code, whose message ends with the error of the last attempted
  adapter; when an attempted adapter succeeds after adapters that returned error
  results, its result is returned as it is. The outcome of an attempt is the one the
  adapter gives at that point of the run, so an adapter may answer differently from one
  call to the next.
\<close>

theorem failover_result:
  "(cs \<noteq> [] \<and> 0 \<le> m \<and> (\<forall>j. int j < maxAttempts m (length cs) \<longrightarrow> attempt_fails exec cs j) \<longrightarrow>
      fst (execute m nr cs exec) =
        \<lparr>error = Some (msg_all_candidates_failed
                        @ attempt_error exec cs (nat (maxAttempts m (length cs)) - 1)),
         code = Some ''FAILOVER_EXHAUSTED'', retryable = Some False, rest = []\<rparr>)
   \<and> (int k < maxAttempts m (length cs) \<and> (\<forall>j < k. attempt_fails exec cs j)
        \<and> exec k (cs ! k) = Returned r \<and> no_error r \<longrightarrow>
      fst (execute m nr cs exec) = r)
   \<and> (type w = ''merge'' \<and> fo_enabled cfg \<noteq> Some False
        \<and> getCandidateTypes reg w modelId \<noteq> [] \<and> 0 \<le> merge_maxRetries cfg
        \<and> (\<forall>j. int j < maxAttempts (merge_maxRetries cfg) (length (getCandidateTypes reg w modelId))
               \<longrightarrow> returns_error reg (getCandidateTypes reg w modelId) calls j) \<longrightarrow>
      fst (generate reg cfg w calls modelId) =
        Returned \<lparr>error = Some (msg_all_adapters_unusable
                     @ returned_error reg (getCandidateTypes reg w modelId) calls
                         (nat (maxAttempts (merge_maxRetries cfg)
                                 (length (getCandidateTypes reg w modelId))) - 1)),
                   code = None, retryable = None, rest = []\<rparr>)
   \<and> (type w = ''merge'' \<and> fo_enabled cfg \<noteq> Some False
        \<and> int k' < maxAttempts (merge_maxRetries cfg) (length (getCandidateTypes reg w modelId))
        \<and> (\<forall>j < k'. returns_error reg (getCandidateTypes reg w modelId) calls j)
        \<and> merge_attempt reg (getCandidateTypes reg w modelId) calls k' = Returned r'
        \<and> no_error r' \<longrightarrow>
      fst (generate reg cfg w calls modelId) = Returned r')"
proof (intro conjI impI)
  assume a: "cs \<noteq> [] \<and> 0 \<le> m \<and> (\<forall>j. int j < maxAttempts m (length cs) \<longrightarrow> attempt_fails exec cs j)"
  then have "fst (execute m nr cs exec) =
      exhausted (Some (attempt_error exec cs (nat (maxAttempts m (length cs)) - 1)))"
    using execute_all_fail(1)[of cs m exec nr] by blast
  then show "fst (execute m nr cs exec) =
        \<lparr>error = Some (msg_all_candidates_failed
                        @ attempt_error exec cs (nat (maxAttempts m (length cs)) - 1)),
         code = Some ''FAILOVER_EXHAUSTED'', retryable = Some False, rest = []\<rparr>"
    by (simp add: exhausted_def interpolate_def)
next
  assume a: "int k < maxAttempts m (length cs) \<and> (\<forall>j < k. attempt_fails exec cs j)
        \<and> exec k (cs ! k) = Returned r \<and> no_error r"
  then have "k < length cs" using maxAttempts_le_length[of m "length cs"] by linarith
  with a show "fst (execute m nr cs exec) = r"
    using execute_first_success(1)[of k m cs exec r nr] by blast
next
  let ?cs = "getCandidateTypes reg w modelId"
  let ?A = "maxAttempts (merge_maxRetries cfg) (length ?cs)"
  assume a: "type w = ''merge'' \<and> fo_enabled cfg \<noteq> Some False
        \<and> ?cs \<noteq> [] \<and> 0 \<le> merge_maxRetries cfg
        \<and> (\<forall>j. int j < ?A \<longrightarrow> returns_error reg ?cs calls j)"
  then have pos: "int 0 < ?A" using maxAttempts_bounds[of "merge_maxRetries cfg" "length ?cs"] by simp
  have g: "generate reg cfg w calls modelId = merge_loop reg ?cs ?A 0 None w calls"
    using a by (simp add: generate_merge_failover)
  have "fst (merge_loop reg ?cs ?A 0 None w (calls_before reg ?cs calls 0)) =
     Returned (error_result (msg_all_adapters_unusable @ returned_error reg ?cs calls (nat ?A - 1)))"
    by (rule merge_loop_run_all_fail[OF pos maxAttempts_le_length]) (use a in blast)
  then show "fst (generate reg cfg w calls modelId) =
        Returned \<lparr>error = Some (msg_all_adapters_unusable
                     @ returned_error reg ?cs calls (nat ?A - 1)),
                   code = None, retryable = None, rest = []\<rparr>"
    using g by (simp add: error_result_def)
next
  let ?cs = "getCandidateTypes reg w modelId"
  let ?A = "maxAttempts (merge_maxRetries cfg) (length ?cs)"
  assume a: "type w = ''merge'' \<and> fo_enabled cfg \<noteq> Some False
        \<and> int k' < ?A
        \<and> (\<forall>j < k'. returns_error reg ?cs calls j)
        \<and> merge_attempt reg ?cs calls k' = Returned r' \<and> no_error r'"
  then have "?cs \<noteq> []" using maxAttempts_le_length[of "merge_maxRetries cfg" "length ?cs"] by auto
  then have g: "generate reg cfg w calls modelId = merge_loop reg ?cs ?A 0 None w calls"
    using a by (simp add: generate_merge_failover)
  have "fst (merge_loop reg ?cs ?A 0 None w (calls_before reg ?cs calls 0)) = Returned r'"
    by (rule merge_loop_run_first_success[where k = k', OF _ _ maxAttempts_le_length])
       (use a in auto)
  then show "fst (generate reg cfg w calls modelId) = Returned r'"
    using g by simp
qed

theorem failover_result_witness:
  "fst (execute 2 (\<lambda>_. True) [''a'', ''b''] (\<lambda>i c. Returned (error_result ''Timeout'')))
     = \<lparr>error = Some (msg_all_candidates_failed @ ''Timeout''),
        code = Some ''FAILOVER_EXHAUSTED'', retryable = Some False, rest = []\<rparr>
   \<and> fst (execute 2 (\<lambda>_. True) [''a'', ''b'']
            (\<lambda>i c. if c = ''b'' then Returned \<lparr>error = None, code = None, retryable = None,
                                               rest = [(''text'', JStr ''ok'')]\<rparr>
                    else Thrown ''boom''))
     = \<lparr>error = None, code = None, retryable = None, rest = [(''text'', JStr ''ok'')]\<rparr>
   \<and> fst (generate example_registry \<lparr>fo_enabled = None, fo_maxRetries = None\<rparr>
            example_worker [] ''a/m'')
     = Returned \<lparr>error = Some (msg_all_adapters_unusable @ ''Timeout''), code = None,
                 retryable = None, rest = []\<rparr>
   \<and> fst (generate flaky_registry \<lparr>fo_enabled = None, fo_maxRetries = None\<rparr>
            example_worker [] ''m'')
     = Returned \<lparr>error = None, code = None, retryable = None, rest = [(''text'', JStr ''b'')]\<rparr>"
proof -
  have w: "type example_worker = ''merge''"
    by (simp add: example_worker_def example_worker_config_def new_worker_def)
  have m: "merge_maxRetries \<lparr>fo_enabled = None, fo_maxRetries = None\<rparr> = 2"
    by (simp add: merge_maxRetries_def)
  have e: "error (error_result ''Timeout'') = Some ''Timeout''" by (simp add: error_result_def)
  have ok: "no_error \<lparr>error = None, code = None, retryable = None, rest = [(''text'', JStr ''b'')]\<rparr>"
    by (simp add: no_error_def)
  have 1: "fst (execute 2 (\<lambda>_. True) [''a'', ''b''] (\<lambda>i c. Returned (error_result ''Timeout'')))
     = \<lparr>error = Some (msg_all_candidates_failed @ ''Timeout''),
        code = Some ''FAILOVER_EXHAUSTED'', retryable = Some False, rest = []\<rparr>"
    using failover_result
      [where cs = "[''a'', ''b'']" and m = 2 and nr = "\<lambda>_. True"
         and exec = "\<lambda>i c. Returned (error_result ''Timeout'')" and k = 0
         and r = "error_result ''Timeout''"
         and w = example_worker and cfg = "\<lparr>fo_enabled = None, fo_maxRetries = None\<rparr>"
         and reg = example_registry and modelId = "''zzz''" and calls = "[]" and k' = 0
         and r' = "error_result ''Timeout''"]
    by (simp add: maxAttempts_def attempt_fails_def attempt_error_def no_error_def error_result_def)
  have 2: "fst (execute 2 (\<lambda>_. True) [''a'', ''b'']
            (\<lambda>i c. if c = ''b'' then Returned \<lparr>error = None, code = None, retryable = None,
                                               rest = [(''text'', JStr ''ok'')]\<rparr>
                    else Thrown ''boom''))
     = \<lparr>error = None, code = None, retryable = None, rest = [(''text'', JStr ''ok'')]\<rparr>"
    using failover_result
      [where cs = "[''a'', ''b'']" and m = 2 and nr = "\<lambda>_. True" and k = 1
         and r = "\<lparr>error = None, code = None, retryable = None, rest = [(''text'', JStr ''ok'')]\<rparr>"
         and exec = "\<lambda>i c. if c = ''b'' then Returned \<lparr>error = None, code = None, retryable = None,
                                               rest = [(''text'', JStr ''ok'')]\<rparr>
                    else Thrown ''boom''"
         and w = example_worker and cfg = "\<lparr>fo_enabled = None, fo_maxRetries = None\<rparr>"
         and reg = example_registry and modelId = "''zzz''" and calls = "[]" and k' = 0
         and r' = "error_result ''Timeout''"]
    by (simp add: maxAttempts_def attempt_fails_def attempt_error_def no_error_def error_result_def)
  have 3: "fst (generate example_registry \<lparr>fo_enabled = None, fo_maxRetries = None\<rparr>
            example_worker [] ''a/m'')
     = Returned \<lparr>error = Some (msg_all_adapters_unusable @ ''Timeout''), code = None,
                 retryable = None, rest = []\<rparr>"
    using failover_result
      [where w = example_worker and cfg = "\<lparr>fo_enabled = None, fo_maxRetries = None\<rparr>"
         and reg = example_registry and modelId = "''a/m''" and calls = "[]" and k' = 0
         and r' = "error_result ''Timeout''"
         and cs = "[''a'', ''b'']" and m = 2 and nr = "\<lambda>_. True"
         and exec = "\<lambda>i c. Returned (error_result ''Timeout'')" and k = 0
         and r = "error_result ''Timeout''"]
    by (simp add: w m example_candidates example_attempt maxAttempts_def failing_not_ok e
        returns_error_def returned_error_def)
  have 4: "fst (generate flaky_registry \<lparr>fo_enabled = None, fo_maxRetries = None\<rparr>
            example_worker [] ''m'')
     = Returned \<lparr>error = None, code = None, retryable = None, rest = [(''text'', JStr ''b'')]\<rparr>"
    using failover_result
      [where w = example_worker and cfg = "\<lparr>fo_enabled = None, fo_maxRetries = None\<rparr>"
         and reg = flaky_registry and modelId = "''m''" and calls = "[]" and k' = 1
         and r' = "\<lparr>error = None, code = None, retryable = None, rest = [(''text'', JStr ''b'')]\<rparr>"
         and cs = "[''a'', ''b'']" and m = 2 and nr = "\<lambda>_. True"
         and exec = "\<lambda>i c. Returned (error_result ''Timeout'')" and k = 0
         and r = "error_result ''Timeout''"]
    by (simp add: w m flaky_candidates flaky_attempts maxAttempts_def failing_not_ok ok
        returns_error_def)
  show ?thesis using 1 2 3 4 by simp
qed

subsection \<open>Qualified model keys in a merge Worker\<close>

text \<open>
  Where the routing of a key with a slash is as it should be: with failover on, and with
  failover off when no member type supports the whole key, slash included, as a model
  id of its own. Then no adapter but the named one is invoked, and the request fails
  with no adapter invoked when the named type is not a member or does not support the
  id.
\<close>

lemma qualified_key_routing:
  assumes "type w = ''merge''" and "includes_slash modelKey"
    and "fo_enabled cfg = Some False \<longrightarrow>
           \<not> list_ex (\<lambda>u. supportsModel reg u modelKey) (mergeTypes w)"
  shows "(\<exists>new. snd (snd (generate reg cfg w calls modelKey)) = calls @ new
              \<and> set new \<subseteq> {(specifiedType modelKey, actualModel modelKey)})
       \<and> (specifiedType modelKey \<notin> set (mergeTypes w)
            \<or> \<not> supportsModel reg (specifiedType modelKey) (actualModel modelKey) \<longrightarrow>
            generate reg cfg w calls modelKey =
              (Returned (error_result
                 (''Worker ['' @ name w @ '']'' @ msg_unsupported_model @ modelKey)),
               w, calls))"
proof -
  let ?t = "specifiedType modelKey" and ?mid = "actualModel modelKey"
  show ?thesis
  proof (cases "fo_enabled cfg = Some False")
    case True
    then have nolit: "\<not> list_ex (\<lambda>u. supportsModel reg u modelKey) (mergeTypes w)"
      using assms(3) by simp
    have sup: "supports reg w modelKey = (?t \<in> set (mergeTypes w) \<and> supportsModel reg ?t ?mid)"
      using nolit assms(1,2) by (auto simp add: supports_def)
    show ?thesis
    proof (cases "?t \<in> set (mergeTypes w) \<and> supportsModel reg ?t ?mid")
      case False
      then have "generate reg cfg w calls modelKey =
              (Returned (error_result
                 (''Worker ['' @ name w @ '']'' @ msg_unsupported_model @ modelKey)), w, calls)"
        using True sup assms(1) by (simp add: generate_def)
      then show ?thesis by simp
    next
      case mem: True
      then have "getAdapterType reg w modelKey = Some ?t"
        using assms(1,2) by (simp add: getAdapterType_def)
      then have "generate reg cfg w calls modelKey = executeAdapter reg w calls ?t ?mid"
        using True sup mem assms(1,2) by (simp add: generate_def)
      then show ?thesis using mem by (simp add: executeAdapter_eq)
    qed
  next
    case False
    let ?cs = "getCandidateTypes reg w modelKey"
    have cs: "?cs = (if ?t \<in> set (mergeTypes w) \<and> supportsModel reg ?t ?mid then [(?t, ?mid)] else [])"
      using assms(2) by (simp add: getCandidateTypes_def)
    show ?thesis
    proof (cases "?t \<in> set (mergeTypes w) \<and> supportsModel reg ?t ?mid")
      case nm: False
      then have "generate reg cfg w calls modelKey =
              (Returned (error_result
                 (''Worker ['' @ name w @ '']'' @ msg_unsupported_model @ modelKey)), w, calls)"
        using False cs assms(1) by (auto simp add: generate_def generateWithFailover_def)
      then show ?thesis by simp
    next
      case mem: True
      then have ne: "?cs \<noteq> []" using cs by simp
      have g: "generate reg cfg w calls modelKey =
          merge_loop reg ?cs (maxAttempts (merge_maxRetries cfg) (length ?cs)) 0 None w calls"
        using generate_merge_failover[OF assms(1) False ne] .
      obtain new where new: "snd (snd (merge_loop reg ?cs
            (maxAttempts (merge_maxRetries cfg) (length ?cs)) 0 None w calls)) = calls @ new"
          "set new \<subseteq> set ?cs"
        using merge_loop_calls[OF maxAttempts_le_length, of reg ?cs "merge_maxRetries cfg" 0 None w calls]
        by blast
      then have "set new \<subseteq> {(?t, ?mid)}" using cs mem by simp
      then show ?thesis using g new(1) mem by auto
    qed
  qed
qed

text \<open>
  Claim C6, at an input where the code departs from it. Failover is off, the key
  \<open>x/m\<close> names a type that is not a member, and the member \<open>b\<close> lists \<open>x/m\<close> as a
  model id of its own. \<open>supports\<close> accepts the key through \<open>b\<close>, \<open>_getAdapterType\<close>
  falls back to the first member, and the adapter \<open>a\<close>, which does not support \<open>m\<close>,
  is invoked with \<open>m\<close>. With failover on, the same Worker refuses the same key.
\<close>

theorem qualified_key_misrouted:
  "type example_worker = ''merge''
   \<and> ''x'' \<notin> set (mergeTypes example_worker)
   \<and> \<not> supportsModel slash_registry ''a'' ''m''
   \<and> generate slash_registry \<lparr>fo_enabled = Some False, fo_maxRetries = None\<rparr>
        example_worker [] ''x/m''
     = (Returned \<lparr>error = None, code = None, retryable = None, rest = [(''text'', JStr ''a'')]\<rparr>,
        example_worker, [(''a'', ''m'')])
   \<and> generate slash_registry \<lparr>fo_enabled = Some True, fo_maxRetries = None\<rparr>
        example_worker [] ''x/m''
     = (Returned (error_result (''Worker [w1]'' @ msg_unsupported_model @ ''x/m'')),
        example_worker, [])"
proof -
  have k: "includes_slash ''x/m''" "specifiedType ''x/m'' = ''x''" "actualModel ''x/m'' = ''m''"
    using qualified_key_parts[of "''x''" "''m''"] by simp_all
  have w: "type example_worker = ''merge''" "mergeTypes example_worker = [''a'', ''b'']"
    "name example_worker = ''w1''"
    by (simp_all add: example_worker_def new_worker_def example_worker_config_def)
  have s: "supports slash_registry example_worker ''x/m''"
    by (simp add: supports_def w slash_registry_def)
  have a: "getAdapterType slash_registry example_worker ''x/m'' = Some ''a''"
    by (simp add: getAdapterType_def w k first_def)
  have e: "executeAdapter slash_registry example_worker [] ''a'' ''m''
     = (Returned \<lparr>error = None, code = None, retryable = None, rest = [(''text'', JStr ''a'')]\<rparr>,
        example_worker, [(''a'', ''m'')])"
    by (simp add: executeAdapter_eq candidate_outcome_def slash_registry_def)
  have on: "generate slash_registry \<lparr>fo_enabled = Some True, fo_maxRetries = None\<rparr>
        example_worker [] ''x/m''
     = (Returned (error_result (''Worker [w1]'' @ msg_unsupported_model @ ''x/m'')),
        example_worker, [])"
    using qualified_key_routing[of example_worker "''x/m''"
        "\<lparr>fo_enabled = Some True, fo_maxRetries = None\<rparr>" slash_registry "[]"]
    by (simp add: w k)
  have ns: "\<not> supportsModel slash_registry ''a'' ''m''" by (simp add: slash_registry_def)
  show ?thesis
    using on ns by (simp add: generate_def w s a e k)
qed

subsection \<open>The model listing\<close>

lemma fold_snoc_map: "fold (\<lambda>m all. all @ [f m]) ms acc = acc @ map f ms"
  by (induction ms arbitrary: acc) auto

lemma fold_qualified:
  "fold (\<lambda>t all. fold (\<lambda>m all. all @ [qualified_entry t m]) (models_of reg t) all) ts acc
   = acc @ concat (map (\<lambda>t. map (qualified_entry t) (models_of reg t)) ts)"
  by (induction ts arbitrary: acc) (auto simp add: fold_snoc_map)

lemma fold_push_concat:
  "fold (\<lambda>t acc. fold push_unseen (models_of reg t) acc) ts s
   = fold push_unseen (concat (map (models_of reg) ts)) s"
  by (induction ts arbitrary: s) auto

lemma push_unseen_inv:
  "bare_inv s \<Longrightarrow> bare_inv (push_unseen m s) \<and> snd (push_unseen m s) = insert (model_id m) (snd s)"
  by (auto simp add: bare_inv_def push_unseen_def internal_entry_def)

lemma fold_push_unseen_inv:
  "bare_inv s \<Longrightarrow> bare_inv (fold push_unseen ms s)
      \<and> snd (fold push_unseen ms s) = snd s \<union> model_id ` set ms"
proof (induction ms arbitrary: s)
  case Nil
  then show ?case by simp
next
  case (Cons m ms)
  from push_unseen_inv[OF Cons.prems, of m] Cons.IH[of "push_unseen m s"]
  show ?case by auto
qed

lemma count_distinct_key:
  "distinct (map f xs) \<Longrightarrow> x \<in> set xs \<Longrightarrow> length (filter (\<lambda>y. f y = f x) xs) = 1"
proof (induction xs)
  case Nil
  then show ?case by simp
next
  case (Cons a xs)
  show ?case
  proof (cases "f a = f x")
    case True
    have "f a \<notin> f ` set xs" using Cons.prems(1) by simp
    then have "\<forall>y \<in> set xs. f y \<noteq> f x" using True by (metis imageI)
    then have "filter (\<lambda>y. f y = f x) xs = []" by (simp add: filter_empty_conv)
    then show ?thesis using True by simp
  next
    case False
    then have "x \<in> set xs" using Cons.prems(2) by auto
    then show ?thesis using Cons False by simp
  qed
qed

lemma count_distinct_key_val:
  "distinct (map f xs) \<Longrightarrow> k \<in> f ` set xs \<Longrightarrow> length (filter (\<lambda>y. f y = k) xs) = 1"
  using count_distinct_key[of f xs] by auto

lemma filter_none: "(\<And>y. y \<in> set xs \<Longrightarrow> \<not> P y) \<Longrightarrow> length (filter P xs) = 0"
  by (simp add: filter_empty_conv)

lemma qualified_part_count:
  assumes "distinct ts" and "t \<in> set ts" and "m \<in> set (models_of reg t)"
    and "distinct (map model_id (models_of reg t))"
  shows "length (filter (is_qualified_entry t (model_id m))
           (concat (map (\<lambda>u. map (qualified_entry u) (models_of reg u)) ts))) = 1"
  using assms(1,2)
proof (induction ts)
  case Nil
  then show ?case by simp
next
  case (Cons u us)
  have here: "length (filter (is_qualified_entry t (model_id m)) (map (qualified_entry t) (models_of reg t))) = 1"
  proof -
    have "filter (is_qualified_entry t (model_id m)) (map (qualified_entry t) (models_of reg t))
        = map (qualified_entry t) (filter (\<lambda>y. model_id y = model_id m) (models_of reg t))"
      by (simp add: filter_map o_def is_qualified_entry_def qualified_entry_def)
    then show ?thesis using count_distinct_key[OF assms(4,3)] by simp
  qed
  have other: "\<And>v. v \<noteq> t \<Longrightarrow>
      length (filter (is_qualified_entry t (model_id m)) (map (qualified_entry v) (models_of reg v))) = 0"
    by (rule filter_none) (auto simp add: is_qualified_entry_def qualified_entry_def)
  have rest_none: "t \<notin> set us \<Longrightarrow>
      length (filter (is_qualified_entry t (model_id m))
           (concat (map (\<lambda>u. map (qualified_entry u) (models_of reg u)) us))) = 0"
    by (rule filter_none) (auto simp add: is_qualified_entry_def qualified_entry_def)
  show ?case
  proof (cases "u = t")
    case True
    then have "t \<notin> set us" using Cons.prems(1) by simp
    then show ?thesis using True here rest_none by simp
  next
    case False
    then have "t \<in> set us" using Cons.prems(2) by auto
    then show ?thesis using False other[of u] Cons.IH Cons.prems(1) by simp
  qed
qed

lemma getModels_single:
  "type w \<noteq> ''merge'' \<Longrightarrow>
   getModels reg w = map internal_entry (models_of reg (type w))
                     @ map (qualified_entry (type w)) (models_of reg (type w))"
  by (simp add: getModels_def Let_def fold_snoc_map)

lemma getModels_merge:
  "type w = ''merge'' \<Longrightarrow>
   getModels reg w =
     fst (fold push_unseen (concat (map (models_of reg) (mergeTypes w))) ([], {}))
     @ concat (map (\<lambda>t. map (qualified_entry t) (models_of reg t)) (mergeTypes w))"
  by (simp add: getModels_def Let_def fold_qualified fold_push_concat)

lemma getModels_parts:
  "\<exists>bare. getModels reg w = bare
        @ concat (map (\<lambda>t. map (qualified_entry t) (models_of reg t)) (adapter_types w))
     \<and> (\<forall>e \<in> set bare. owned_by e = Some ''internal_server'')
     \<and> model_id ` set bare = (\<Union>t \<in> set (adapter_types w). model_id ` set (models_of reg t))
     \<and> (type w = ''merge'' \<or> distinct (map model_id (models_of reg (type w)))
          \<longrightarrow> distinct (map model_id bare))"
proof (cases "type w = ''merge''")
  case True
  let ?s = "fold push_unseen (concat (map (models_of reg) (mergeTypes w))) ([], {})"
  have "bare_inv ([], {})" by (simp add: bare_inv_def)
  from fold_push_unseen_inv[OF this, of "concat (map (models_of reg) (mergeTypes w))"]
  have inv: "bare_inv ?s" and ids: "snd ?s = model_id ` set (concat (map (models_of reg) (mergeTypes w)))"
    by simp_all
  have "model_id ` set (fst ?s) = snd ?s" using inv by (simp add: bare_inv_def)
  also have "\<dots> = model_id ` set (concat (map (models_of reg) (mergeTypes w)))" by (rule ids)
  also have "\<dots> = (\<Union>t \<in> set (mergeTypes w). model_id ` set (models_of reg t))" by auto
  finally have "model_id ` set (fst ?s) = (\<Union>t \<in> set (mergeTypes w). model_id ` set (models_of reg t))" .
  then show ?thesis
    using True inv getModels_merge[OF True, of reg]
    by (intro exI[of _ "fst ?s"]) (simp add: adapter_types_def bare_inv_def)
next
  case False
  show ?thesis
    using False getModels_single[OF False, of reg]
    by (intro exI[of _ "map internal_entry (models_of reg (type w))"])
       (auto simp add: adapter_types_def internal_entry_def o_def distinct_map comp_def image_image)
qed

text \<open>
  A merge Worker that names the type \<open>a\<close> twice lists \<open>a/m\<close> twice; a Worker of one
  type whose adapter lists the id \<open>m\<close> twice lists the bare \<open>m\<close> twice; and for an
  adapter type called \<open>internal_server\<close> that lists \<open>m\<close> and \<open>internal_server/m\<close>,
  two entries have the id \<open>internal_server/m\<close> and that owner.
\<close>

theorem getModels_repeated_entries:
  "getModels example_registry twice_a_worker
     = [\<lparr>model_id = ''m'', owned_by = Some ''internal_server'', model_fields = []\<rparr>,
        \<lparr>model_id = ''a/m'', owned_by = Some ''a'', model_fields = []\<rparr>,
        \<lparr>model_id = ''a/m'', owned_by = Some ''a'', model_fields = []\<rparr>]
   \<and> length (filter (is_qualified_entry ''a'' ''m'') (getModels example_registry twice_a_worker)) = 2
   \<and> getModels repeating_registry single_a_worker
     = [\<lparr>model_id = ''m'', owned_by = Some ''internal_server'', model_fields = []\<rparr>,
        \<lparr>model_id = ''m'', owned_by = Some ''internal_server'', model_fields = []\<rparr>,
        \<lparr>model_id = ''a/m'', owned_by = Some ''a'', model_fields = []\<rparr>,
        \<lparr>model_id = ''a/m'', owned_by = Some ''a'', model_fields = []\<rparr>]
   \<and> length (filter (is_internal_entry ''m'') (getModels repeating_registry single_a_worker)) = 2
   \<and> length (filter (is_qualified_entry ''internal_server'' ''m'')
               (getModels repeating_registry internal_server_worker)) = 2"
proof -
  have 1: "getModels example_registry twice_a_worker
     = [\<lparr>model_id = ''m'', owned_by = Some ''internal_server'', model_fields = []\<rparr>,
        \<lparr>model_id = ''a/m'', owned_by = Some ''a'', model_fields = []\<rparr>,
        \<lparr>model_id = ''a/m'', owned_by = Some ''a'', model_fields = []\<rparr>]"
    by (simp add: getModels_def twice_a_worker_def example_worker_def example_worker_config_def
        new_worker_def example_registry_def models_of_def push_unseen_def internal_entry_def
        qualified_entry_def)
  have 2: "getModels repeating_registry single_a_worker
     = [\<lparr>model_id = ''m'', owned_by = Some ''internal_server'', model_fields = []\<rparr>,
        \<lparr>model_id = ''m'', owned_by = Some ''internal_server'', model_fields = []\<rparr>,
        \<lparr>model_id = ''a/m'', owned_by = Some ''a'', model_fields = []\<rparr>,
        \<lparr>model_id = ''a/m'', owned_by = Some ''a'', model_fields = []\<rparr>]"
    by (simp add: getModels_def single_a_worker_def example_worker_def example_worker_config_def
        new_worker_def repeating_registry_def models_of_def internal_entry_def
        qualified_entry_def)
  have 3: "getModels repeating_registry internal_server_worker
     = [\<lparr>model_id = ''m'', owned_by = Some ''internal_server'', model_fields = []\<rparr>,
        \<lparr>model_id = ''internal_server/m'', owned_by = Some ''internal_server'', model_fields = []\<rparr>,
        \<lparr>model_id = ''internal_server/m'', owned_by = Some ''internal_server'', model_fields = []\<rparr>,
        \<lparr>model_id = ''internal_server/internal_server/m'', owned_by = Some ''internal_server'',
           model_fields = []\<rparr>]"
    by (simp add: getModels_def internal_server_worker_def example_worker_def
        example_worker_config_def new_worker_def repeating_registry_def models_of_def
        internal_entry_def qualified_entry_def)
  show ?thesis
    by (simp add: 1 2 3 is_qualified_entry_def is_internal_entry_def)
qed

text \<open>
  Claim C8, as amended. When the adapter types of a Worker are distinct, no adapter
  lists an id twice and no adapter type is called \<open>internal_server\<close>, every model
  registered under one of the Worker's adapter types appears exactly twice in the
  listing: exactly one entry has the bare id and \<open>owned_by = 'internal_server'\<close>, and
  exactly one entry has the id \<open><adapterType>/<id>\<close> and \<open>owned_by\<close> equal to the
  adapter type. This includes an id that several member types of a merge Worker
  register, whose bare entry is listed once. The listing has no other entries.
\<close>

theorem getModels_lists_each_model_twice:
  assumes "t \<in> set (adapter_types w)" and "m \<in> set (models_of reg t)"
    and "distinct (adapter_types w)"
    and "\<forall>u \<in> set (adapter_types w). distinct (map model_id (models_of reg u))"
    and "''internal_server'' \<notin> set (adapter_types w)"
  shows "length (filter (is_internal_entry (model_id m)) (getModels reg w)) = 1
       \<and> length (filter (is_qualified_entry t (model_id m)) (getModels reg w)) = 1
       \<and> (\<forall>e \<in> set (getModels reg w).
            \<exists>u \<in> set (adapter_types w). \<exists>m' \<in> set (models_of reg u).
              is_internal_entry (model_id m') e \<or> is_qualified_entry u (model_id m') e)"
proof -
  let ?Q = "concat (map (\<lambda>t. map (qualified_entry t) (models_of reg t)) (adapter_types w))"
  obtain bare where g: "getModels reg w = bare @ ?Q"
    and own: "\<forall>e \<in> set bare. owned_by e = Some ''internal_server''"
    and ids: "model_id ` set bare = (\<Union>t \<in> set (adapter_types w). model_id ` set (models_of reg t))"
    and dist: "type w = ''merge'' \<or> distinct (map model_id (models_of reg (type w)))
          \<longrightarrow> distinct (map model_id bare)"
    using getModels_parts[of reg w] by blast
  have d: "distinct (map model_id bare)"
    using dist assms(4) by (auto simp add: adapter_types_def split: if_splits)
  have mem: "model_id m \<in> model_id ` set bare" using ids assms(1,2) by auto
  have b1: "length (filter (is_internal_entry (model_id m)) bare) = 1"
  proof -
    have "filter (is_internal_entry (model_id m)) bare = filter (\<lambda>y. model_id y = model_id m) bare"
      using own by (intro filter_cong) (auto simp add: is_internal_entry_def)
    then show ?thesis using count_distinct_key_val[OF d mem] by simp
  qed
  have q1: "length (filter (is_internal_entry (model_id m)) ?Q) = 0"
    by (rule filter_none) (use assms(5) in \<open>auto simp add: is_internal_entry_def qualified_entry_def\<close>)
  have b2: "length (filter (is_qualified_entry t (model_id m)) bare) = 0"
    by (rule filter_none) (use own assms(1,5) in \<open>auto simp add: is_qualified_entry_def\<close>)
  have q2: "length (filter (is_qualified_entry t (model_id m)) ?Q) = 1"
    using qualified_part_count[OF assms(3,1,2)] assms(1,4) by simp
  have all: "\<forall>e \<in> set (getModels reg w).
            \<exists>u \<in> set (adapter_types w). \<exists>m' \<in> set (models_of reg u).
              is_internal_entry (model_id m') e \<or> is_qualified_entry u (model_id m') e"
  proof
    fix e assume "e \<in> set (getModels reg w)"
    then consider "e \<in> set bare" | "e \<in> set ?Q" using g by auto
    then show "\<exists>u \<in> set (adapter_types w). \<exists>m' \<in> set (models_of reg u).
              is_internal_entry (model_id m') e \<or> is_qualified_entry u (model_id m') e"
    proof cases
      case 1
      then have "model_id e \<in> (\<Union>t \<in> set (adapter_types w). model_id ` set (models_of reg t))"
        using ids by blast
      then obtain u m' where "u \<in> set (adapter_types w)" "m' \<in> set (models_of reg u)"
        "model_id e = model_id m'" by auto
      then show ?thesis using own 1 by (auto simp add: is_internal_entry_def)
    next
      case 2
      then obtain u m' where "u \<in> set (adapter_types w)" "m' \<in> set (models_of reg u)"
        "e = qualified_entry u m'" by auto
      then show ?thesis by (auto simp add: is_qualified_entry_def qualified_entry_def)
    qed
  qed
  show ?thesis using g b1 q1 b2 q2 all by simp
qed

theorem getModels_lists_each_model_twice_witness:
  "length (filter (is_internal_entry ''m'') (getModels example_registry example_worker)) = 1
   \<and> length (filter (is_qualified_entry ''b'' ''m'') (getModels example_registry example_worker)) = 1"
  using getModels_lists_each_model_twice
    [of "''b''" example_worker "\<lparr>model_id = ''m'', owned_by = None, model_fields = []\<rparr>"
        example_registry]
  by (simp add: adapter_types_def example_worker_def example_worker_config_def new_worker_def
      example_registry_def models_of_def)

end
